theory Spec2Isabelle
  imports Complex_Main "HOL-Library.Monad_Syntax"
begin

section \<open>Numbers and images\<close>

text \<open>
  The generator (\<^verbatim>\<open>src/lib/pdf-generator.ts\<close>) computes with JavaScript numbers. In the
  layout they are modelled as \<^typ>\<open>real\<close>: exact arithmetic, no rounding and no overflow
  (what rounding does to a computed size is the subject of the section on double
  precision). The one way
  the source arithmetic can leave the finite numbers is a division by zero (JavaScript
  yields an infinity or NaN there, HOL would silently yield 0), so every division of the
  source goes through \<open>js_div\<close>, which returns \<open>None\<close> in that case.
\<close>

definition js_div :: "real \<Rightarrow> real \<Rightarrow> real option" where
  "js_div a b = (if b = 0 then None else Some (a / b))"

text \<open>
  A decoded \<^verbatim>\<open>HTMLImageElement\<close>: its source locator and its intrinsic pixel size
  (\<^verbatim>\<open>img.width\<close>, \<^verbatim>\<open>img.height\<close> are unsigned integers).
\<close>

record HTMLImageElement =
  img_src :: string
  img_width :: nat
  img_height :: nat

text \<open>
  \<^verbatim>\<open>calculateImageDimensions\<close> (lines 100-124). The mutable locals
  \<^verbatim>\<open>width\<close> and \<^verbatim>\<open>height\<close> are rebound step by step, in the order of the source.
  The result is \<open>None\<close> exactly when one of its three divisions has a zero divisor.
\<close>

definition minWidth :: real where
  "minWidth = 40"

definition minHeight :: real where
  "minHeight = 30"

definition calculateImageDimensions ::
  "HTMLImageElement \<Rightarrow> real \<Rightarrow> real \<Rightarrow> (real \<times> real) option" where
  "calculateImageDimensions img maxWidth maxHeight =
     do {
       aspectRatio \<leftarrow> js_div (real (img_width img)) (real (img_height img));
       let width = maxWidth;
       height \<leftarrow> js_div width aspectRatio;
       let (width, height) =
         (if height > maxHeight then (maxHeight * aspectRatio, maxHeight) else (width, height));
       (width, height) \<leftarrow>
         (if width < minWidth
          then do { h \<leftarrow> js_div minWidth aspectRatio; Some (minWidth, h) }
          else Some (width, height));
       let (width, height) =
         (if height < minHeight then (minHeight * aspectRatio, minHeight) else (width, height));
       Some (width, height)
     }"

text \<open>
  The fit the specification describes for \<open>fitWithinBounds\<close>, in its own words: fill the
  box width-first, and fall back to the height-constrained size when that is too tall.
\<close>

definition width_first_fill :: "real \<Rightarrow> real \<Rightarrow> real \<Rightarrow> real \<times> real" where
  "width_first_fill r W H = (if W / r \<le> H then (W, W / r) else (H * r, H))"

section \<open>Double precision\<close>

text \<open>
  JavaScript numbers are IEEE 754 binary64 values, and an arithmetic operation of the
  source returns the exact result rounded to the nearest such value, a tie going to the
  even significand. \<open>binary64 x\<close> is that rounding of the real number \<open>x\<close>: for a positive
  \<open>x\<close> with \<open>2 ^ e \<le> x < 2 ^ (e + 1)\<close> it is the multiple of \<open>2 ^ (e - 52)\<close> nearest to \<open>x\<close>.
  The exponent is not bounded, so overflow and subnormal numbers are left out: pixel
  sizes are integers, and the sizes looked at are at least 30 units.

  \<open>halvings x\<close> counts how often a number of at least 2 is halved until it is below 2,
  \<open>doublings x\<close> how often a positive number below 1 is doubled until it is at least 1;
  together they give the exponent \<open>e\<close>.
\<close>

function halvings :: "real \<Rightarrow> nat" where
  "halvings x = (if 2 \<le> x then Suc (halvings (x / 2)) else 0)"
  by pat_completeness auto
termination
proof (relation "measure (\<lambda>x. nat \<lfloor>x\<rfloor>)")
  show "wf (measure (\<lambda>x. nat \<lfloor>x::real\<rfloor>))" by simp
next
  fix x :: real
  assume x: "2 \<le> x"
  have "x / 2 \<le> x - 1" using x by simp
  then have "\<lfloor>x / 2\<rfloor> \<le> \<lfloor>x - 1\<rfloor>" by (rule floor_mono)
  then have "\<lfloor>x / 2\<rfloor> < \<lfloor>x\<rfloor>" by simp
  moreover have "0 < \<lfloor>x\<rfloor>" using x by simp
  ultimately show "(x / 2, x) \<in> measure (\<lambda>x. nat \<lfloor>x\<rfloor>)" by simp
qed

function doublings :: "real \<Rightarrow> nat" where
  "doublings x = (if 0 < x \<and> x < 1 then Suc (doublings (2 * x)) else 0)"
  by pat_completeness auto
termination
proof (relation "measure (\<lambda>x. nat \<lceil>1 / x\<rceil>)")
  show "wf (measure (\<lambda>x. nat \<lceil>1 / (x::real)\<rceil>))" by simp
next
  fix x :: real
  assume x: "0 < x \<and> x < 1"
  then have y: "1 < 1 / x" by simp
  define c where "c = \<lceil>1 / x\<rceil>"
  have c2: "2 \<le> c" using y unfolding c_def by linarith
  have "1 / x \<le> of_int c" unfolding c_def by (rule le_of_int_ceiling)
  then have "1 / (2 * x) \<le> of_int c / 2" by simp
  also have "\<dots> \<le> of_int (c - 1)" using c2 by simp
  finally have "\<lceil>1 / (2 * x)\<rceil> \<le> c - 1" by (simp only: ceiling_le_iff)
  then have "\<lceil>1 / (2 * x)\<rceil> < \<lceil>1 / x\<rceil>" by (simp add: c_def)
  moreover have "0 < \<lceil>1 / x\<rceil>" using y by linarith
  ultimately show "(2 * x, x) \<in> measure (\<lambda>x. nat \<lceil>1 / x\<rceil>)" by simp
qed

declare halvings.simps [simp del] doublings.simps [simp del]

definition exponent :: "real \<Rightarrow> int" where
  "exponent x = (if 1 \<le> x then int (halvings x) else - int (doublings x))"

definition round_even :: "real \<Rightarrow> int" where
  "round_even m =
     (let f = \<lfloor>m\<rfloor>; d = m - of_int f
      in if d < 1 / 2 then f else if 1 / 2 < d then f + 1 else if even f then f else f + 1)"

definition round_pos :: "real \<Rightarrow> real" where
  "round_pos x = (let e = exponent x in of_int (round_even (x * 2 powi (52 - e))) * 2 powi (e - 52))"

definition binary64 :: "real \<Rightarrow> real" where
  "binary64 x = (if x = 0 then 0 else if 0 < x then round_pos x else - round_pos (- x))"

text \<open>
  \<^verbatim>\<open>calculateImageDimensions\<close> (lines 100-124) once more, with the result of each of its
  divisions and multiplications rounded by \<open>fl\<close>; comparisons and assignments do not
  round. With \<open>fl = binary64\<close> this is the function as it runs; with the identity it is
  \<open>calculateImageDimensions\<close> above (lemma \<open>calculateImageDimensions_unrounded\<close>).
\<close>

definition calculateImageDimensions_rounded ::
  "(real \<Rightarrow> real) \<Rightarrow> HTMLImageElement \<Rightarrow> real \<Rightarrow> real \<Rightarrow> (real \<times> real) option" where
  "calculateImageDimensions_rounded fl img maxWidth maxHeight =
     do {
       aspectRatio \<leftarrow> map_option fl (js_div (real (img_width img)) (real (img_height img)));
       let width = maxWidth;
       height \<leftarrow> map_option fl (js_div width aspectRatio);
       let (width, height) =
         (if height > maxHeight then (fl (maxHeight * aspectRatio), maxHeight)
          else (width, height));
       (width, height) \<leftarrow>
         (if width < minWidth
          then do { h \<leftarrow> map_option fl (js_div minWidth aspectRatio); Some (minWidth, h) }
          else Some (width, height));
       let (width, height) =
         (if height < minHeight then (fl (minHeight * aspectRatio), minHeight)
          else (width, height));
       Some (width, height)
     }"

section \<open>Input, document writer and environment\<close>

text \<open>
  The argument of \<^verbatim>\<open>generatePDF\<close> (lines 1-10). The \<^verbatim>\<open>File\<close> object is never read by
  the generator; it is represented by its name. Strings are byte strings (UTF-8).
\<close>

record ImageData =
  file_name :: string
  url :: string

record PDFData =
  studentId :: string
  studentName :: string
  images :: "ImageData list"

text \<open>
  The offscreen canvas of \<^verbatim>\<open>addTextAsImage\<close> after drawing (lines 65-84): its pixel size,
  the font size and the text drawn. Its PNG export (\<^verbatim>\<open>canvas.toDataURL\<close>) is identified with
  the canvas it was taken from.
\<close>

record canvas =
  cv_width :: nat
  cv_height :: nat
  cv_font_px :: real
  cv_text :: string

text \<open>
  What \<^verbatim>\<open>pdf.addImage\<close> is given as image data: a loaded photo, or the data URL of a
  rasterised caption.
\<close>

datatype source = Img HTMLImageElement | DataURL canvas

text \<open>
  A placement rectangle \<open>(x, y, width, height)\<close>. The calls on the external document
  writer (jsPDF), with their arguments; \<open>Text\<close> is \<^verbatim>\<open>pdf.text\<close>, always centred and with
  character spacing 0.5; \<open>AddImage\<close> carries the image data, the format and the
  rectangle, \<open>None\<close> when a coordinate came out of a division by zero.
\<close>

type_synonym placement = "real \<times> real \<times> real \<times> real"

datatype call =
    SetFont string string
  | SetFontSize real
  | Text string real real
  | AddImage source string "placement option"
  | AddPage
  | Save string

text \<open>
  An \<^verbatim>\<open>img.onload\<close> handler registered by \<^verbatim>\<open>addTextAsImage\<close> and not yet run: the data
  URL it closes over and the anchor point \<open>(x, y)\<close>.
\<close>

datatype task = Onload canvas real real

text \<open>What a step can throw, and what \<^verbatim>\<open>generatePDF\<close> rejects with.\<close>

datatype exn = LoadError string | URIError string | WriterError call

datatype error = ImportError | GenerationError string

text \<open>
  The state the generator acts on: the log of writer calls that completed, in order; the
  handlers waiting for their event; and the file delivered by \<^verbatim>\<open>pdf.save\<close>, as its name and
  the calls the document had received when it was serialised. \<open>thrown\<close> is a record for
  the statements only, which the code never reads: every exception thrown so far, in
  order, whether it was caught or not.
\<close>

record world =
  calls :: "call list"
  pending :: "task list"
  saved :: "(string \<times> call list) option"
  thrown :: "exn list"

text \<open>
  The collaborators the source does not define are parameters:
  whether the dynamic \<^verbatim>\<open>import("jspdf")\<close> succeeds; what the image loader yields for a
  locator (\<open>None\<close>: \<^verbatim>\<open>onerror\<close>); what \<^verbatim>\<open>unescape(encodeURIComponent(text))\<close> yields
  (\<open>None\<close>: it throws, as it does on a lone surrogate); whether a writer call throws,
  given the calls made so far; and whether the handlers that are waiting get their event
  while the generator is suspended on the load of a locator.
\<close>

record env =
  import_ok :: bool
  load :: "string \<Rightarrow> HTMLImageElement option"
  encode :: "string \<Rightarrow> string option"
  throws :: "call list \<Rightarrow> call \<Rightarrow> bool"
  fires_during :: "string \<Rightarrow> bool"

text \<open>Steps: state passing with exceptions; the state survives a throw.\<close>

type_synonym 'a io = "world \<Rightarrow> (exn + 'a) \<times> world"

definition andThen :: "'a io \<Rightarrow> ('a \<Rightarrow> 'b io) \<Rightarrow> 'b io" where
  "andThen m f = (\<lambda>w. case m w of (Inl e, w') \<Rightarrow> (Inl e, w') | (Inr a, w') \<Rightarrow> f a w')"

definition catch :: "'a io \<Rightarrow> (exn \<Rightarrow> 'a io) \<Rightarrow> 'a io" where
  "catch m h = (\<lambda>w. case m w of (Inl e, w') \<Rightarrow> h e w' | (Inr a, w') \<Rightarrow> (Inr a, w'))"

definition skip :: "unit io" where
  "skip = (\<lambda>w. (Inr (), w))"

definition invoke :: "env \<Rightarrow> call \<Rightarrow> unit io" where
  "invoke env c =
     (\<lambda>w. if throws env (calls w) c
          then (Inl (WriterError c), w\<lparr>thrown := thrown w @ [WriterError c]\<rparr>)
          else (Inr (), w\<lparr>calls := calls w @ [c]\<rparr>))"

definition pdf_save :: "env \<Rightarrow> string \<Rightarrow> unit io" where
  "pdf_save env fileName =
     (\<lambda>w. if throws env (calls w) (Save fileName)
          then (Inl (WriterError (Save fileName)),
                w\<lparr>thrown := thrown w @ [WriterError (Save fileName)]\<rparr>)
          else (Inr (), w\<lparr>calls := calls w @ [Save fileName],
                           saved := Some (fileName, calls w)\<rparr>))"

definition encodeText :: "env \<Rightarrow> string \<Rightarrow> string io" where
  "encodeText env text =
     (\<lambda>w. case encode env text of
            None \<Rightarrow> (Inl (URIError text), w\<lparr>thrown := thrown w @ [URIError text]\<rparr>)
          | Some t \<Rightarrow> (Inr t, w))"

section \<open>The caption\<close>

text \<open>
  The image decoded from the data URL of a canvas has the canvas's pixel size.
\<close>

definition decoded :: "canvas \<Rightarrow> HTMLImageElement" where
  "decoded c = \<lparr>img_src = ''data:image/png'', img_width = cv_width c, img_height = cv_height c\<rparr>"

text \<open>The \<^verbatim>\<open>img.onload\<close> handler of \<^verbatim>\<open>addTextAsImage\<close> (lines 89-94).\<close>

definition onload :: "env \<Rightarrow> canvas \<Rightarrow> HTMLImageElement \<Rightarrow> real \<Rightarrow> real \<Rightarrow> unit io" where
  "onload env dataURL img x y =
     (let textWidth = 120;
          textHeight = map_option (\<lambda>q. q * textWidth)
                         (js_div (real (img_height img)) (real (img_width img)))
      in invoke env (AddImage (DataURL dataURL) ''PNG''
           (map_option (\<lambda>textHeight. (x - textWidth / 2, y - textHeight / 2, textWidth, textHeight))
              textHeight)))"

text \<open>
  Running a waiting handler; an exception inside an event handler reaches nobody.
  The waiting handlers run in the order they were registered.
\<close>

fun run_task :: "env \<Rightarrow> task \<Rightarrow> world \<Rightarrow> world" where
  "run_task env (Onload dataURL x y) w = snd (onload env dataURL (decoded dataURL) x y w)"

definition run_pending :: "env \<Rightarrow> world \<Rightarrow> world" where
  "run_pending env w = fold (run_task env) (pending w) (w\<lparr>pending := []\<rparr>)"

text \<open>
  \<^verbatim>\<open>addTextAsImage\<close> (lines 63-97). The promise executor runs at once: it draws the text on a
  2000 x 200 canvas, exports it and registers the \<^verbatim>\<open>onload\<close> handler; the handler itself
  runs later, from the event loop. The canvas API is taken not to throw. The call
  returns a promise; \<open>addTextAsImage\<close> is the call whose promise is dropped, and
  \<open>addTextAsImage_awaited\<close> the call under \<^verbatim>\<open>await\<close>, which resumes after the handler ran
  (a handler that throws would leave that promise pending for ever; the awaited call
  stands only in the \<^verbatim>\<open>catch\<close> blocks of the call sites, which are never entered, see
  \<open>call_site_catch_unreachable\<close> below).
\<close>

definition addTextAsImage :: "env \<Rightarrow> string \<Rightarrow> real \<Rightarrow> real \<Rightarrow> real \<Rightarrow> unit io" where
  "addTextAsImage env text x y fontSize =
     (\<lambda>w. let dataURL = \<lparr>cv_width = 2000, cv_height = 200, cv_font_px = fontSize, cv_text = text\<rparr>
          in (Inr (), w\<lparr>pending := pending w @ [Onload dataURL x y]\<rparr>))"

definition addTextAsImage_awaited :: "env \<Rightarrow> string \<Rightarrow> real \<Rightarrow> real \<Rightarrow> real \<Rightarrow> unit io" where
  "addTextAsImage_awaited env text x y fontSize =
     andThen (addTextAsImage env text x y fontSize) (\<lambda>_ w. (Inr (), run_pending env w))"

text \<open>
  \<^verbatim>\<open>addKoreanText\<close> (lines 43-60): the \<^verbatim>\<open>try\<close> block, and the \<^verbatim>\<open>catch\<close> that starts the canvas
  fallback at three times the font size and returns its promise without awaiting it.
\<close>

definition addKoreanText :: "env \<Rightarrow> string \<Rightarrow> real \<Rightarrow> real \<Rightarrow> real \<Rightarrow> unit io" where
  "addKoreanText env text x y fontSize =
     catch
       (andThen (invoke env (SetFont ''helvetica'' ''bold'')) (\<lambda>_.
        andThen (invoke env (SetFontSize fontSize)) (\<lambda>_.
        andThen (encodeText env text) (\<lambda>encodedText.
        invoke env (Text encodedText x y)))))
       (\<lambda>error. addTextAsImage env text x y (fontSize * 3))"

text \<open>
  The \<^verbatim>\<open>try\<close> block of \<^verbatim>\<open>addKoreanText\<close> on its own (lines 44-54), the direct text
  placement: the canvas fallback is used exactly when this throws (lemma
  \<open>addKoreanText_try_catch\<close>).
\<close>

definition direct_text :: "env \<Rightarrow> string \<Rightarrow> real \<Rightarrow> real \<Rightarrow> real \<Rightarrow> unit io" where
  "direct_text env text x y fontSize =
     andThen (invoke env (SetFont ''helvetica'' ''bold'')) (\<lambda>_.
     andThen (invoke env (SetFontSize fontSize)) (\<lambda>_.
     andThen (encodeText env text) (\<lambda>encodedText.
     invoke env (Text encodedText x y))))"

section \<open>The generator\<close>

text \<open>
  \<^verbatim>\<open>await loadImage(url)\<close> (lines 32-40): the generator is suspended until the load event,
  and handlers that were waiting may get their event first.
\<close>

definition loadImage :: "env \<Rightarrow> string \<Rightarrow> HTMLImageElement io" where
  "loadImage env u =
     (\<lambda>w. let w' = (if fires_during env u then run_pending env w else w)
          in case load env u of
               None \<Rightarrow> (Inl (LoadError u), w'\<lparr>thrown := thrown w' @ [LoadError u]\<rparr>)
             | Some img \<Rightarrow> (Inr img, w'))"

text \<open>The page constants (lines 19-23).\<close>

definition pageWidth :: real where
  "pageWidth = 210"

definition pageHeight :: real where
  "pageHeight = 297"

definition margin :: real where
  "margin = 20"

definition contentWidth :: real where
  "contentWidth = pageWidth - margin * 2"

definition contentHeight :: real where
  "contentHeight = pageHeight - margin * 2"

text \<open>The branch for one image (lines 127-146).\<close>

definition branch_one :: "env \<Rightarrow> PDFData \<Rightarrow> unit io" where
  "branch_one env data =
     andThen (loadImage env (url (images data ! 0))) (\<lambda>img.
       let textY = margin + 15;
           availableHeight = contentHeight - 40;
           dims = calculateImageDimensions img (contentWidth * 0.8) (availableHeight * 0.8);
           rect = map_option (\<lambda>(width, height).
                    let imageX = margin + (contentWidth - width) / 2;
                        imageY = margin + 40
                    in (imageX, imageY, width, height)) dims;
           textX = pageWidth / 2
       in andThen
            (catch (addKoreanText env (studentId data @ '' '' @ studentName data) textX textY 28)
               (\<lambda>_. addTextAsImage_awaited env
                       (studentId data @ '' '' @ studentName data) textX textY 84))
            (\<lambda>_. invoke env (AddImage (Img img) ''JPEG'' rect)))"

text \<open>The branch for two images (lines 147-183).\<close>

definition branch_two :: "env \<Rightarrow> PDFData \<Rightarrow> unit io" where
  "branch_two env data =
     andThen (loadImage env (url (images data ! 0))) (\<lambda>img1.
     andThen (loadImage env (url (images data ! 1))) (\<lambda>img2.
       let textY = margin + 15;
           gap = 15;
           availableWidth = (contentWidth - gap) / 2;
           availableHeight = contentHeight - 40;
           textX = pageWidth / 2
       in andThen
            (catch (addKoreanText env (studentId data @ '' '' @ studentName data) textX textY 28)
               (\<lambda>_. addTextAsImage_awaited env
                       (studentId data @ '' '' @ studentName data) textX textY 84))
            (\<lambda>_.
              let dims1 = calculateImageDimensions img1 (availableWidth * 0.9) (availableHeight * 0.9);
                  dims2 = calculateImageDimensions img2 (availableWidth * 0.9) (availableHeight * 0.9);
                  rect1 = map_option (\<lambda>(width1, height1).
                            let image1X = margin + (availableWidth - width1) / 2;
                                image1Y = margin + 40 + (availableHeight - height1) / 2
                            in (image1X, image1Y, width1, height1)) dims1;
                  rect2 = map_option (\<lambda>(width2, height2).
                            let image2X = margin + availableWidth + gap + (availableWidth - width2) / 2;
                                image2Y = margin + 40 + (availableHeight - height2) / 2
                            in (image2X, image2Y, width2, height2)) dims2
              in andThen (invoke env (AddImage (Img img1) ''JPEG'' rect1)) (\<lambda>_.
                 invoke env (AddImage (Img img2) ''JPEG'' rect2)))))"

text \<open>The branch for three images (lines 184-243): two pages.\<close>

definition branch_three :: "env \<Rightarrow> PDFData \<Rightarrow> unit io" where
  "branch_three env data =
     andThen (loadImage env (url (images data ! 0))) (\<lambda>img1.
     andThen (loadImage env (url (images data ! 1))) (\<lambda>img2.
       let textY = margin + 15;
           gap = 15;
           availableWidth = (contentWidth - gap) / 2;
           availableHeight = contentHeight - 40;
           textX = pageWidth / 2
       in andThen
            (catch (addKoreanText env (studentId data @ '' '' @ studentName data) textX textY 28)
               (\<lambda>_. addTextAsImage_awaited env
                       (studentId data @ '' '' @ studentName data) textX textY 84))
            (\<lambda>_.
              let dims1 = calculateImageDimensions img1 (availableWidth * 0.9) (availableHeight * 0.9);
                  dims2 = calculateImageDimensions img2 (availableWidth * 0.9) (availableHeight * 0.9);
                  rect1 = map_option (\<lambda>(width1, height1).
                            let image1X = margin + (availableWidth - width1) / 2;
                                image1Y = margin + 40 + (availableHeight - height1) / 2
                            in (image1X, image1Y, width1, height1)) dims1;
                  rect2 = map_option (\<lambda>(width2, height2).
                            let image2X = margin + availableWidth + gap + (availableWidth - width2) / 2;
                                image2Y = margin + 40 + (availableHeight - height2) / 2
                            in (image2X, image2Y, width2, height2)) dims2
              in andThen (invoke env (AddImage (Img img1) ''JPEG'' rect1)) (\<lambda>_.
                 andThen (invoke env (AddImage (Img img2) ''JPEG'' rect2)) (\<lambda>_.
                 andThen (invoke env AddPage) (\<lambda>_.
                 andThen (loadImage env (url (images data ! 2))) (\<lambda>img3.
                   let availableHeight3 = contentHeight - 40;
                       dims3 = calculateImageDimensions img3
                                 (contentWidth * 0.8) (availableHeight3 * 0.8);
                       rect3 = map_option (\<lambda>(width3, height3).
                                 let image3X = margin + (contentWidth - width3) / 2;
                                     image3Y = margin + 40
                                 in (image3X, image3Y, width3, height3)) dims3;
                       text2X = pageWidth / 2;
                       text2Y = margin + 15
                   in andThen
                        (catch
                           (addKoreanText env
                              (studentId data @ '' '' @ studentName data) text2X text2Y 28)
                           (\<lambda>_. addTextAsImage_awaited env
                                   (studentId data @ '' '' @ studentName data) text2X text2Y 84))
                        (\<lambda>_. invoke env (AddImage (Img img3) ''JPEG'' rect3)))))))))"

text \<open>
  The message of the error thrown by the outer \<^verbatim>\<open>catch\<close> (line 251), in UTF-8: the
  Korean sentence "an error occurred while generating the PDF".
\<close>

definition generation_error_message :: string where
  "generation_error_message =
     [CHR 0x50, CHR 0x44, CHR 0x46, CHR 0x20, CHR 0xEC, CHR 0x83, CHR 0x9D, CHR 0xEC,
      CHR 0x84, CHR 0xB1, CHR 0x20, CHR 0xEC, CHR 0xA4, CHR 0x91, CHR 0x20, CHR 0xEC,
      CHR 0x98, CHR 0xA4, CHR 0xEB, CHR 0xA5, CHR 0x98, CHR 0xEA, CHR 0xB0, CHR 0x80,
      CHR 0x20, CHR 0xEB, CHR 0xB0, CHR 0x9C, CHR 0xEC, CHR 0x83, CHR 0x9D, CHR 0xED,
      CHR 0x96, CHR 0x88, CHR 0xEC, CHR 0x8A, CHR 0xB5, CHR 0xEB, CHR 0x8B, CHR 0x88,
      CHR 0xEB, CHR 0x8B, CHR 0xA4, CHR 0x2E]"

text \<open>
  The \<^verbatim>\<open>try\<close> block (lines 126-248): the branch chosen by the number of images, none for
  any other number, then \<^verbatim>\<open>pdf.save\<close>.
\<close>

definition try_block :: "env \<Rightarrow> PDFData \<Rightarrow> unit io" where
  "try_block env data =
     andThen
       (if length (images data) = 1 then branch_one env data
        else if length (images data) = 2 then branch_two env data
        else if length (images data) = 3 then branch_three env data
        else skip)
       (\<lambda>_. let fileName = studentId data @ ''_'' @ studentName data @ ''.pdf''
            in pdf_save env fileName)"

text \<open>The fresh writer of \<^verbatim>\<open>new jsPDF(...)\<close> (lines 25-29): nothing called, nothing saved.\<close>

definition new_jsPDF :: world where
  "new_jsPDF = \<lparr>calls = [], pending = [], saved = None, thrown = []\<rparr>"

text \<open>
  \<^verbatim>\<open>generatePDF\<close> (lines 12-253): how its promise settles, and the state at that moment.
  The import and the constructor are outside the \<^verbatim>\<open>try\<close>; whatever the block throws is
  replaced by the one generic error.
\<close>

definition generatePDF :: "env \<Rightarrow> PDFData \<Rightarrow> (error + unit) \<times> world" where
  "generatePDF env data =
     (if \<not> import_ok env then (Inl ImportError, new_jsPDF)
      else case try_block env data new_jsPDF of
             (Inl e, w) \<Rightarrow> (Inl (GenerationError generation_error_message), w)
           | (Inr u, w) \<Rightarrow> (Inr (), w))"

text \<open>
  After the promise has settled the event loop goes on: the handlers still waiting run.
  \<open>execution\<close> is the complete sequence of writer calls of one run.
\<close>

definition execution :: "env \<Rightarrow> PDFData \<Rightarrow> call list" where
  "execution env data = calls (run_pending env (snd (generatePDF env data)))"

section \<open>Reading a call log\<close>

text \<open>
  Modelled from the spec: the document writer is an external library, so what a call
  sequence means for the pages is taken from the specification, "Document: owns one or
  more pages ... built incrementally by the external Document Writer": a new document
  has one page and every \<^verbatim>\<open>addPage\<close> appends one.
\<close>

definition page_count :: "call list \<Rightarrow> nat" where
  "page_count cs = 1 + length (filter (\<lambda>c. c = AddPage) cs)"

text \<open>A photo placement, and a caption placement (direct text or rasterised).\<close>

fun is_photo :: "call \<Rightarrow> bool" where
  "is_photo (AddImage (Img i) f r) = True"
| "is_photo c = False"

fun is_caption :: "call \<Rightarrow> bool" where
  "is_caption (Text t x y) = True"
| "is_caption (AddImage (DataURL d) f r) = True"
| "is_caption c = False"

text \<open>The calls made while the first page is the current one.\<close>

definition first_page :: "call list \<Rightarrow> call list" where
  "first_page cs = takeWhile (\<lambda>c. c \<noteq> AddPage) cs"

text \<open>
  The ordering property of a call sequence: on every page, no caption is placed once a
  photo has been placed there. The flag says whether the current page has received a
  photo; \<^verbatim>\<open>addPage\<close> starts the next page.
\<close>

fun caption_first :: "bool \<Rightarrow> call list \<Rightarrow> bool" where
  "caption_first seen [] = True"
| "caption_first seen (AddPage # cs) = caption_first False cs"
| "caption_first seen (c # cs) =
     (if is_photo c then caption_first True cs
      else if is_caption c then \<not> seen \<and> caption_first seen cs
      else caption_first seen cs)"

text \<open>
  The layout for three images in the specification's words: "Page 1 reproduces the
  2-image side-by-side layout for images 1-2 with its own caption. Page 2 reproduces
  the 1-image layout for image 3 with a repeated caption."
\<close>

definition two_then_one ::
  "env \<Rightarrow> string \<Rightarrow> string \<Rightarrow> ImageData \<Rightarrow> ImageData \<Rightarrow> ImageData \<Rightarrow> unit io" where
  "two_then_one env sid sname a b c =
     andThen (branch_two env \<lparr>studentId = sid, studentName = sname, images = [a, b]\<rparr>) (\<lambda>_.
     andThen (invoke env AddPage) (\<lambda>_.
     branch_one env \<lparr>studentId = sid, studentName = sname, images = [c]\<rparr>))"

text \<open>
  An environment in which nothing fails: the import succeeds, the encoding is the
  identity, no writer call throws, no handler fires early; only the loader is given.
\<close>

definition cooperative :: "(string \<Rightarrow> HTMLImageElement option) \<Rightarrow> env" where
  "cooperative l =
     \<lparr>import_ok = True, load = l, encode = Some, throws = (\<lambda>_ _. False),
      fires_during = (\<lambda>_. False)\<rparr>"

section \<open>Frames\<close>

text \<open>
  \<open>extends_by ok w w'\<close>: from \<open>w\<close> to \<open>w'\<close> nothing was saved and the log only grew,
  by calls that satisfy \<open>ok\<close>. \<open>only_calls ok m\<close>: the step \<open>m\<close> does no more than that,
  whether it returns or throws.
\<close>

definition extends_by :: "(call \<Rightarrow> bool) \<Rightarrow> world \<Rightarrow> world \<Rightarrow> bool" where
  "extends_by ok w w' = (saved w' = saved w \<and> (\<exists>cs. calls w' = calls w @ cs \<and> list_all ok cs))"

definition only_calls :: "(call \<Rightarrow> bool) \<Rightarrow> 'a io \<Rightarrow> bool" where
  "only_calls ok m = (\<forall>w. extends_by ok w (snd (m w)))"

text \<open>Calls that neither start a page nor save; and those of them that place no photo.\<close>

definition placing :: "call \<Rightarrow> bool" where
  "placing c = (c \<noteq> AddPage \<and> (\<forall>n. c \<noteq> Save n))"


section \<open>Failures\<close>

text \<open>
  The exceptions of the steps that stand directly in the \<^verbatim>\<open>try\<close> block of \<^verbatim>\<open>generatePDF\<close>:
  a failed image load, and a writer that throws on placing a photo, on \<^verbatim>\<open>addPage\<close> or on
  \<^verbatim>\<open>save\<close>. The others are thrown by the direct text placement, inside the \<^verbatim>\<open>try\<close> of
  \<^verbatim>\<open>addKoreanText\<close>, or by the \<^verbatim>\<open>addImage\<close> of a rasterised caption, inside an event handler.

  \<open>quiet w\<close>: no exception of the first kind has been thrown so far. \<open>stays_quiet m\<close>:
  the step \<open>m\<close> throws none. \<open>quiet_on_return m\<close>: when \<open>m\<close> returns, it has thrown none.
  \<open>throws_logged P m\<close>: what \<open>m\<close> throws to its caller satisfies \<open>P\<close> and is on record.
\<close>

fun is_save :: "call \<Rightarrow> bool" where
  "is_save (Save n) = True"
| "is_save c = False"

fun load_photo_page_or_save :: "exn \<Rightarrow> bool" where
  "load_photo_page_or_save (LoadError u) = True"
| "load_photo_page_or_save (URIError t) = False"
| "load_photo_page_or_save (WriterError c) = (is_photo c \<or> c = AddPage \<or> is_save c)"

definition quiet :: "world \<Rightarrow> bool" where
  "quiet w = (filter load_photo_page_or_save (thrown w) = [])"

definition stays_quiet :: "'a io \<Rightarrow> bool" where
  "stays_quiet m = (\<forall>w. quiet w \<longrightarrow> quiet (snd (m w)))"

definition quiet_on_return :: "'a io \<Rightarrow> bool" where
  "quiet_on_return m = (\<forall>w. quiet w \<longrightarrow> (\<forall>a. fst (m w) = Inr a \<longrightarrow> quiet (snd (m w))))"

definition throws_logged :: "(exn \<Rightarrow> bool) \<Rightarrow> 'a io \<Rightarrow> bool" where
  "throws_logged P m = (\<forall>w e. fst (m w) = Inl e \<longrightarrow> P e \<and> e \<in> set (thrown (snd (m w))))"

section \<open>The dimension fit\<close>

text \<open>
  With a positive intrinsic size no division fails, and the function is the three
  steps of the source on the ratio \<open>r\<close>: fit, width floor, height floor.
\<close>

lemma calculateImageDimensions_positive:
  assumes "0 < img_width img" "0 < img_height img"
  shows "calculateImageDimensions img W H =
    (let r = real (img_width img) / real (img_height img);
         p0 = (if W / r > H then (H * r, H) else (W, W / r));
         p1 = (if fst p0 < 40 then (40, 40 / r) else p0)
     in Some (if snd p1 < 30 then (30 * r, 30) else p1))"
  using assms
  by (simp add: calculateImageDimensions_def js_div_def minWidth_def minHeight_def Let_def)

text \<open>
  In exact arithmetic the size returned has exactly the intrinsic ratio, a width of at
  least 40 and a height of at least 30, for every box.
\<close>

lemma calculateImageDimensions_exact_ratio:
  assumes "0 < img_width img" "0 < img_height img"
  shows "\<exists>w h. calculateImageDimensions img W H = Some (w, h)
           \<and> w / h = real (img_width img) / real (img_height img)
           \<and> minWidth \<le> w \<and> minHeight \<le> h"
proof -
  define r where "r = real (img_width img) / real (img_height img)"
  define p0 where "p0 = (if W / r > H then (H * r, H) else (W, W / r))"
  define p1 where "p1 = (if fst p0 < 40 then (40, 40 / r) else p0)"
  define p2 where "p2 = (if snd p1 < 30 then (30 * r, 30) else p1)"
  have r: "0 < r" using assms by (simp add: r_def)
  have calc: "calculateImageDimensions img W H = Some p2"
    by (simp add: calculateImageDimensions_positive[OF assms] Let_def p2_def p1_def p0_def r_def)
  have i0: "fst p0 = snd p0 * r" using r by (simp add: p0_def)
  have i1: "fst p1 = snd p1 * r" using r i0 by (simp add: p1_def)
  have w1: "40 \<le> fst p1" by (simp add: p1_def)
  have i2: "fst p2 = snd p2 * r" using i1 by (simp add: p2_def)
  have h2: "30 \<le> snd p2" by (simp add: p2_def)
  have w2: "40 \<le> fst p2"
  proof (cases "snd p1 < 30")
    case True
    then have "snd p1 * r < 30 * r" using r by simp
    with w1 i1 True show ?thesis by (simp add: p2_def)
  next
    case False
    then show ?thesis using w1 by (simp add: p2_def)
  qed
  have ratio: "fst p2 / snd p2 = r" using i2 h2 by simp
  show ?thesis
    using calc ratio w2 h2
    by (intro exI[of _ "fst p2"] exI[of _ "snd p2"]) (simp add: r_def minWidth_def minHeight_def)
qed

text \<open>
  C7: for every image of positive size, with ratio \<open>r\<close>, and every box \<open>(W, H)\<close> with
  positive \<open>W\<close> and \<open>H\<close>: when neither minimum-size clamp fires (the fitted width is
  not below 40 and the fitted height not below 30), \<open>calculateImageDimensions\<close> returns
  the width-first fill of the box, \<open>(W, W / r)\<close> if \<open>W / r \<le> H\<close> and \<open>(H * r, H)\<close>
  otherwise; then the width is at most \<open>W\<close>, the height at most \<open>H\<close>, and one of the
  two bounds is attained.
\<close>

theorem calculateImageDimensions_width_first_fill:
  assumes "0 < img_width img" "0 < img_height img" "0 < W" "0 < H"
    and "width_first_fill (real (img_width img) / real (img_height img)) W H = (fw, fh)"
    and "\<not> fw < minWidth" "\<not> fh < minHeight"
  shows "calculateImageDimensions img W H = Some (fw, fh)
         \<and> fw \<le> W \<and> fh \<le> H \<and> (fw = W \<or> fh = H)"
proof -
  define r where "r = real (img_width img) / real (img_height img)"
  have r: "0 < r" using assms by (simp add: r_def)
  show ?thesis
  proof (cases "W / r \<le> H")
    case True
    then have f: "fw = W" "fh = W / r"
      using assms(5) by (auto simp: width_first_fill_def r_def)
    then show ?thesis using True assms(6,7)
      by (simp add: calculateImageDimensions_positive[OF assms(1,2)] Let_def r_def
            minWidth_def minHeight_def)
  next
    case False
    then have f: "fw = H * r" "fh = H"
      using assms(5) by (auto simp: width_first_fill_def r_def)
    from False r have "H * r < W" by (simp add: field_simps)
    then show ?thesis using f False assms(6,7)
      by (simp add: calculateImageDimensions_positive[OF assms(1,2)] Let_def r_def
            minWidth_def minHeight_def)
  qed
qed

theorem calculateImageDimensions_width_first_fill_witness:
  "0 < img_width \<lparr>img_src = ''b.jpg'', img_width = 400, img_height = 300\<rparr>
   \<and> 0 < img_height \<lparr>img_src = ''b.jpg'', img_width = 400, img_height = 300\<rparr>
   \<and> (0::real) < 136 \<and> (0::real) < 173.6
   \<and> width_first_fill (real 400 / real 300) 136 173.6 = (136, 102)
   \<and> \<not> (136::real) < minWidth \<and> \<not> (102::real) < minHeight
   \<and> calculateImageDimensions \<lparr>img_src = ''b.jpg'', img_width = 400, img_height = 300\<rparr>
        136 173.6 = Some (136, 102)
   \<and> (136::real) \<le> 136 \<and> (102::real) \<le> 173.6"
  using calculateImageDimensions_width_first_fill
          [of "\<lparr>img_src = ''b.jpg'', img_width = 400, img_height = 300\<rparr>" 136 "173.6" 136 102]
  by (simp add: width_first_fill_def minWidth_def minHeight_def)

text \<open>
  C10: for every image with strictly positive intrinsic width and height and every box
  with strictly positive bounds, no division of \<open>calculateImageDimensions\<close> has a zero
  divisor (\<open>img.height\<close> and \<open>aspectRatio\<close> are not zero, so the result is not
  \<open>None\<close>), and the width and height returned are strictly positive.
\<close>

theorem calculateImageDimensions_no_zero_division:
  assumes "0 < img_width img" "0 < img_height img" "0 < W" "0 < H"
  shows "\<exists>aspectRatio w h.
           js_div (real (img_width img)) (real (img_height img)) = Some aspectRatio
         \<and> aspectRatio \<noteq> 0 \<and> img_height img \<noteq> 0
         \<and> calculateImageDimensions img W H = Some (w, h) \<and> 0 < w \<and> 0 < h"
proof -
  define r where "r = real (img_width img) / real (img_height img)"
  have r: "0 < r" using assms by (simp add: r_def)
  have "0 < W / r" using r assms by simp
  then show ?thesis using assms r
    by (simp add: calculateImageDimensions_positive[OF assms(1,2)] Let_def r_def[symmetric]
          js_div_def)
qed

theorem calculateImageDimensions_no_zero_division_witness:
  "0 < img_width \<lparr>img_src = ''c.jpg'', img_width = 1, img_height = 1\<rparr>
   \<and> 0 < img_height \<lparr>img_src = ''c.jpg'', img_width = 1, img_height = 1\<rparr>
   \<and> (0::real) < 10 \<and> (0::real) < 10
   \<and> (\<exists>aspectRatio w h.
           js_div (real 1) (real 1) = Some aspectRatio \<and> aspectRatio \<noteq> 0
         \<and> calculateImageDimensions \<lparr>img_src = ''c.jpg'', img_width = 1, img_height = 1\<rparr> 10 10
             = Some (w, h) \<and> 0 < w \<and> 0 < h)"
  using calculateImageDimensions_no_zero_division
          [of "\<lparr>img_src = ''c.jpg'', img_width = 1, img_height = 1\<rparr>" 10 10]
  by simp

section \<open>The dimension fit in double precision\<close>

subsection \<open>Rounding\<close>

text \<open>
  The exponent brackets a positive number between two powers of two, its scaled
  significand lies between \<open>2 ^ 52\<close> and \<open>2 ^ 53\<close>, and rounding the significand to the
  nearest integer moves it by at most one half.
\<close>

lemma halvings_bounds: "1 \<le> x \<Longrightarrow> 2 ^ halvings x \<le> x \<and> x < 2 * 2 ^ halvings x"
proof (induction x rule: halvings.induct)
  case (1 x)
  show ?case
  proof (cases "2 \<le> x")
    case True
    then have "1 \<le> x / 2" by simp
    with True "1.IH" have "2 ^ halvings (x / 2) \<le> x / 2 \<and> x / 2 < 2 * 2 ^ halvings (x / 2)"
      by blast
    moreover have "halvings x = Suc (halvings (x / 2))"
      using True by (subst halvings.simps) simp
    ultimately show ?thesis by simp
  next
    case False
    then have "halvings x = 0" by (subst halvings.simps) simp
    then show ?thesis using False "1.prems" by simp
  qed
qed

lemma doublings_bounds:
  "0 < x \<Longrightarrow> x < 1 \<Longrightarrow> 1 \<le> x * 2 ^ doublings x \<and> x * 2 ^ doublings x < 2"
proof (induction x rule: doublings.induct)
  case (1 x)
  have d: "doublings x = Suc (doublings (2 * x))"
    using "1.prems" by (subst doublings.simps) simp
  show ?case
  proof (cases "2 * x < 1")
    case True
    then have "1 \<le> (2 * x) * 2 ^ doublings (2 * x) \<and> (2 * x) * 2 ^ doublings (2 * x) < 2"
      using "1.IH" "1.prems" by simp
    then show ?thesis by (simp add: d mult.assoc mult.left_commute)
  next
    case False
    then have "doublings (2 * x) = 0" by (subst doublings.simps) simp
    then show ?thesis using False "1.prems" by (simp add: d)
  qed
qed

lemma exponent_bounds:
  assumes "0 < x"
  shows "2 powi exponent x \<le> x" and "x < 2 powi (exponent x + 1)"
proof -
  show "2 powi exponent x \<le> x"
  proof (cases "1 \<le> x")
    case True
    then show ?thesis using halvings_bounds[of x] by (simp add: exponent_def)
  next
    case False
    then have b: "1 \<le> x * 2 ^ doublings x" using doublings_bounds[of x] assms by simp
    have "(2::real) powi exponent x = 1 / 2 ^ doublings x"
      using False by (simp add: exponent_def power_int_minus_divide)
    also have "\<dots> \<le> x" using b by (simp add: field_simps)
    finally show ?thesis .
  qed
  show "x < 2 powi (exponent x + 1)"
  proof (cases "1 \<le> x")
    case True
    have "(2::real) powi (int (halvings x) + 1) = 2 * 2 ^ halvings x"
      by (simp add: power_int_add)
    then show ?thesis using True halvings_bounds[of x] by (simp add: exponent_def)
  next
    case False
    then have b: "x * 2 ^ doublings x < 2" using doublings_bounds[of x] assms by simp
    have "(2::real) powi (exponent x + 1) = 2 powi exponent x * 2 powi 1"
      by (subst power_int_add) simp_all
    then have "(2::real) powi (exponent x + 1) = 2 / 2 ^ doublings x"
      using False by (simp add: exponent_def power_int_minus_divide)
    moreover have "x < 2 / 2 ^ doublings x" using b by (simp add: field_simps)
    ultimately show ?thesis by simp
  qed
qed

lemma round_even_cases:
  "round_even m = \<lfloor>m\<rfloor> \<and> m - of_int \<lfloor>m\<rfloor> \<le> 1 / 2
   \<or> round_even m = \<lfloor>m\<rfloor> + 1 \<and> 1 / 2 \<le> m - of_int \<lfloor>m\<rfloor>"
  by (auto simp: round_even_def Let_def)

lemma round_even_error: "\<bar>of_int (round_even m) - m\<bar> \<le> 1 / 2"
  using round_even_cases[of m] by (auto simp: abs_le_iff)

lemma round_even_of_int: "round_even (of_int k) = k"
  by (simp add: round_even_def)

lemma round_even_mono:
  assumes "m \<le> m'"
  shows "round_even m \<le> round_even m'"
proof -
  have f: "\<lfloor>m\<rfloor> \<le> \<lfloor>m'\<rfloor>" using assms by (rule floor_mono)
  show ?thesis
  proof (cases "\<lfloor>m\<rfloor> = \<lfloor>m'\<rfloor>")
    case True
    then have "m - of_int \<lfloor>m\<rfloor> \<le> m' - of_int \<lfloor>m'\<rfloor>" using assms by simp
    then show ?thesis using True by (auto simp: round_even_def Let_def)
  next
    case False
    then have "\<lfloor>m\<rfloor> + 1 \<le> \<lfloor>m'\<rfloor>" using f by simp
    moreover have "round_even m \<le> \<lfloor>m\<rfloor> + 1" using round_even_cases[of m] by auto
    moreover have "\<lfloor>m'\<rfloor> \<le> round_even m'" using round_even_cases[of m'] by auto
    ultimately show ?thesis by linarith
  qed
qed

lemma significand_bounds:
  assumes "0 < x"
  shows "2 ^ 52 \<le> x * 2 powi (52 - exponent x)" and "x * 2 powi (52 - exponent x) < 2 ^ 53"
proof -
  have eq: "(2::real) powi (52 - exponent x) = 2 ^ 52 / 2 powi exponent x"
    by (simp add: power_int_diff)
  have pos: "0 < (2::real) powi exponent x" by simp
  show "2 ^ 52 \<le> x * 2 powi (52 - exponent x)"
  proof -
    have "2 ^ 52 * 2 powi exponent x \<le> 2 ^ 52 * x"
      using exponent_bounds(1)[OF assms] by simp
    then show ?thesis using pos by (simp add: eq field_simps)
  qed
  show "x * 2 powi (52 - exponent x) < 2 ^ 53"
  proof -
    have "(2::real) powi (exponent x + 1) = 2 * 2 powi exponent x" by (simp add: power_int_add)
    then have "x < 2 * 2 powi exponent x" using exponent_bounds(2)[OF assms] by simp
    then have "2 ^ 52 * x < 2 ^ 53 * 2 powi exponent x" by simp
    then show ?thesis using pos by (simp add: eq field_simps)
  qed
qed

lemma scale_back: "x * 2 powi (52 - e) * 2 powi (e - 52) = (x::real)"
proof -
  have "(2::real) powi (52 - e) * 2 powi (e - 52) = 2 powi ((52 - e) + (e - 52))"
    by (subst power_int_add) simp_all
  then have "(2::real) powi (52 - e) * 2 powi (e - 52) = 1" by simp
  then show ?thesis by (simp add: mult.assoc)
qed

lemma round_pos_error:
  assumes "0 < x"
  shows "\<bar>round_pos x - x\<bar> \<le> x / 2 ^ 53"
proof -
  define e where "e = exponent x"
  define m where "m = x * 2 powi (52 - e)"
  define s where "s = (2::real) powi (e - 52)"
  have s: "0 < s" by (simp add: s_def)
  have x: "x = m * s" unfolding m_def s_def by (simp add: scale_back)
  have m: "2 ^ 52 \<le> m" unfolding m_def e_def using significand_bounds(1)[OF assms] .
  have "round_pos x = of_int (round_even m) * s"
    by (simp add: round_pos_def Let_def e_def[symmetric] m_def[symmetric] s_def[symmetric])
  then have "round_pos x - x = (of_int (round_even m) - m) * s"
    by (simp only: x[symmetric] left_diff_distrib)
  then have "\<bar>round_pos x - x\<bar> = \<bar>of_int (round_even m) - m\<bar> * s"
    using s by (simp add: abs_mult)
  also have "\<dots> \<le> (1 / 2) * s"
    using round_even_error[of m] s by (intro mult_right_mono) simp_all
  also have "\<dots> \<le> (m / 2 ^ 53) * s"
    using m s by (intro mult_right_mono) simp_all
  also have "\<dots> = x / 2 ^ 53" by (simp add: x)
  finally show ?thesis .
qed

lemma round_pos_bounds:
  assumes "0 < x"
  shows "2 powi exponent x \<le> round_pos x" and "round_pos x \<le> 2 powi (exponent x + 1)"
proof -
  define e where "e = exponent x"
  define m where "m = x * 2 powi (52 - e)"
  define s where "s = (2::real) powi (e - 52)"
  have s: "0 < s" by (simp add: s_def)
  have rp: "round_pos x = of_int (round_even m) * s"
    by (simp add: round_pos_def Let_def e_def[symmetric] m_def[symmetric] s_def[symmetric])
  have lo: "2 ^ 52 \<le> m" and hi: "m < 2 ^ 53"
    unfolding m_def e_def using significand_bounds[OF assms] by simp_all
  have "round_even (of_int (2 ^ 52)) \<le> round_even m"
    using lo by (intro round_even_mono) simp
  then have r1: "(2 ^ 52 :: int) \<le> round_even m" by (simp only: round_even_of_int)
  have "round_even m \<le> round_even (of_int (2 ^ 53))"
    using hi by (intro round_even_mono) simp
  then have r2: "round_even m \<le> (2 ^ 53 :: int)" by (simp only: round_even_of_int)
  have p1: "(2::real) powi e = 2 ^ 52 * s"
  proof -
    have "e = 52 + (e - 52)" by simp
    then have "(2::real) powi e = 2 powi (52 + (e - 52))" by (simp only:)
    also have "\<dots> = 2 powi 52 * 2 powi (e - 52)" by (subst power_int_add) simp_all
    finally show ?thesis by (simp add: s_def)
  qed
  have p2: "(2::real) powi (e + 1) = 2 ^ 53 * s"
  proof -
    have "e + 1 = 53 + (e - 52)" by simp
    then have "(2::real) powi (e + 1) = 2 powi (53 + (e - 52))" by (simp only:)
    also have "\<dots> = 2 powi 53 * 2 powi (e - 52)" by (subst power_int_add) simp_all
    finally show ?thesis by (simp add: s_def)
  qed
  have "(2 ^ 52 :: real) \<le> of_int (round_even m)"
    using r1 by (metis of_int_le_iff of_int_numeral of_int_power)
  then show "2 powi exponent x \<le> round_pos x"
    using s by (simp add: rp p1 e_def[symmetric])
  have "of_int (round_even m) \<le> (2 ^ 53 :: real)"
    using r2 by (metis of_int_le_iff of_int_numeral of_int_power)
  then show "round_pos x \<le> 2 powi (exponent x + 1)"
    using s by (simp add: rp p2 e_def[symmetric])
qed

lemma exponent_mono:
  assumes "0 < x" "x \<le> y"
  shows "exponent x \<le> exponent y"
proof (rule ccontr)
  assume "\<not> exponent x \<le> exponent y"
  then have "exponent y + 1 \<le> exponent x" by simp
  then have "(2::real) powi (exponent y + 1) \<le> 2 powi exponent x"
    by (intro power_int_increasing) simp_all
  moreover have "y < 2 powi (exponent y + 1)" using assms by (intro exponent_bounds(2)) simp
  moreover have "2 powi exponent x \<le> x" using assms by (intro exponent_bounds(1))
  ultimately show False using assms(2) by linarith
qed

lemma round_pos_mono:
  assumes "0 < x" "x \<le> y"
  shows "round_pos x \<le> round_pos y"
proof (cases "exponent x = exponent y")
  case True
  have "x * 2 powi (52 - exponent y) \<le> y * 2 powi (52 - exponent y)"
    using assms(2) by (intro mult_right_mono) simp_all
  then have "round_even (x * 2 powi (52 - exponent y)) \<le> round_even (y * 2 powi (52 - exponent y))"
    by (rule round_even_mono)
  then have "(of_int (round_even (x * 2 powi (52 - exponent y))) :: real)
      \<le> of_int (round_even (y * 2 powi (52 - exponent y)))" by simp
  then show ?thesis
    by (simp add: round_pos_def Let_def True mult_right_mono)
next
  case False
  then have "exponent x + 1 \<le> exponent y" using exponent_mono[OF assms] by simp
  then have "(2::real) powi (exponent x + 1) \<le> 2 powi exponent y"
    by (intro power_int_increasing) simp_all
  moreover have "round_pos x \<le> 2 powi (exponent x + 1)" using assms(1) by (rule round_pos_bounds(2))
  moreover have "2 powi exponent y \<le> round_pos y" using assms by (intro round_pos_bounds(1)) simp
  ultimately show ?thesis by linarith
qed

text \<open>
  What is used of the rounding: it keeps the sign, it is monotone, its relative error is
  at most \<open>2 ^ -53\<close>, and 30 and 40 are not changed by it.
\<close>

lemma binary64_pos: "0 < x \<Longrightarrow> binary64 x = round_pos x"
  by (simp add: binary64_def)

lemma binary64_positive: "0 < x \<Longrightarrow> 0 < binary64 x"
proof -
  assume x: "0 < x"
  have "0 < (2::real) powi exponent x" by simp
  also have "\<dots> \<le> round_pos x" using x by (rule round_pos_bounds(1))
  finally show ?thesis using x by (simp add: binary64_pos)
qed

lemma binary64_nonpos: "x \<le> 0 \<Longrightarrow> binary64 x \<le> 0"
proof -
  assume x: "x \<le> 0"
  show ?thesis
  proof (cases "x = 0")
    case True
    then show ?thesis by (simp add: binary64_def)
  next
    case False
    then have "0 < - x" using x by simp
    then have "0 < binary64 (- x)" by (rule binary64_positive)
    then show ?thesis using False x by (simp add: binary64_def)
  qed
qed

lemma binary64_error: "0 < x \<Longrightarrow> \<bar>binary64 x - x\<bar> \<le> x / 2 ^ 53"
  using round_pos_error[of x] by (simp only: binary64_pos)

lemma binary64_mono: "0 < x \<Longrightarrow> x \<le> y \<Longrightarrow> binary64 x \<le> binary64 y"
  by (simp add: binary64_pos round_pos_mono)

lemma binary64_30: "binary64 30 = 30"
  by (simp add: binary64_def round_pos_def exponent_def round_even_def Let_def halvings.simps)

lemma binary64_40: "binary64 40 = 40"
  by (simp add: binary64_def round_pos_def exponent_def round_even_def Let_def halvings.simps)

lemmas binary64_eval = binary64_def round_pos_def exponent_def round_even_def Let_def
  halvings.simps doublings.simps

subsection \<open>The ratio of the computed size\<close>

text \<open>Without rounding, the rounded function is the exact one.\<close>

lemma calculateImageDimensions_unrounded:
  "calculateImageDimensions_rounded (\<lambda>x. x) img W H = calculateImageDimensions img W H"
  by (simp add: calculateImageDimensions_rounded_def calculateImageDimensions_def
      option.map_ident cong: if_cong)

text \<open>
  The returned pair is \<open>(fl (c * a), c)\<close> or \<open>(c, fl (c / a))\<close> for the rounded ratio
  \<open>a = fl r\<close>: two roundings, each of relative error at most \<open>u\<close>, move the ratio of the
  pair by at most \<open>3 * u * r\<close>.
\<close>

lemma ratio_after_product:
  fixes r u ar c w :: real
  assumes r: "0 < r" and u: "0 \<le> u" "u \<le> 1 / 3"
    and ar: "\<bar>ar - r\<bar> \<le> u * r" and c: "0 < c"
    and w: "\<bar>w - c * ar\<bar> \<le> u * (c * ar)"
  shows "\<bar>w / c - r\<bar> \<le> 3 * u * r"
proof -
  have ar_ub: "ar \<le> r + u * r" using ar by (simp add: abs_le_iff)
  have "\<bar>w / c - ar\<bar> = \<bar>w - c * ar\<bar> / c" using c by (simp add: field_simps)
  also have "\<dots> \<le> (u * (c * ar)) / c" using w c by (intro divide_right_mono) simp_all
  also have "\<dots> = u * ar" using c by simp
  also have "\<dots> \<le> u * (r + u * r)" using ar_ub u by (intro mult_left_mono) simp_all
  finally have a: "\<bar>w / c - ar\<bar> \<le> u * (r + u * r)" .
  have "u * (u * r) \<le> u * (1 * r)" using u r by (intro mult_left_mono mult_right_mono) simp_all
  then have b: "u * (r + u * r) \<le> 2 * u * r" by (simp add: algebra_simps)
  have "\<bar>w / c - r\<bar> \<le> \<bar>w / c - ar\<bar> + \<bar>ar - r\<bar>" by simp
  then show ?thesis using a b ar by linarith
qed

lemma ratio_after_quotient:
  fixes r u ar c h :: real
  assumes r: "0 < r" and u: "0 \<le> u" "u \<le> 1 / 3"
    and ar: "\<bar>ar - r\<bar> \<le> u * r" and ar0: "0 < ar" and c: "0 < c"
    and h: "\<bar>h - c / ar\<bar> \<le> u * (c / ar)"
  shows "\<bar>c / h - r\<bar> \<le> 3 * u * r"
proof -
  define q where "q = c / ar"
  have q: "0 < q" using c ar0 by (simp add: q_def)
  have cq: "c = q * ar" using ar0 by (simp add: q_def)
  have hq: "\<bar>h - q\<bar> \<le> u * q" using h by (simp add: q_def)
  have "q - u * q \<le> h" using hq by (simp add: abs_le_iff)
  moreover have "u * q \<le> (1 / 3) * q" using u q by (intro mult_right_mono) simp_all
  ultimately have h_lb: "(2 / 3) * q \<le> h" by simp
  have "0 < (2 / 3) * q" using q by simp
  with h_lb have h0: "0 < h" by linarith
  have "c - r * h = q * (ar - r) + r * (q - h)" by (simp add: cq algebra_simps)
  then have "\<bar>c - r * h\<bar> \<le> \<bar>q * (ar - r)\<bar> + \<bar>r * (q - h)\<bar>" by (simp only: abs_triangle_ineq)
  also have "\<dots> = q * \<bar>ar - r\<bar> + r * \<bar>h - q\<bar>"
    using q r by (simp add: abs_mult abs_minus_commute)
  also have "\<dots> \<le> q * (u * r) + r * (u * q)"
    using ar hq q r by (intro add_mono mult_left_mono) simp_all
  also have "\<dots> = 3 * u * r * ((2 / 3) * q)" by simp
  also have "\<dots> \<le> 3 * u * r * h" using h_lb u r by (intro mult_left_mono) simp_all
  finally have num: "\<bar>c - r * h\<bar> \<le> 3 * u * r * h" .
  have "\<bar>c / h - r\<bar> = \<bar>c - r * h\<bar> / h" using h0 by (simp add: field_simps)
  also have "\<dots> \<le> (3 * u * r * h) / h" using num h0 by (intro divide_right_mono) simp_all
  also have "\<dots> = 3 * u * r" using h0 by simp
  finally show ?thesis .
qed

text \<open>
  The floors and the ratio for every rounding that keeps the sign, is monotone, has
  relative error at most \<open>u \<le> 1 / 3\<close> and leaves 30 and 40 alone. The floors need the
  monotonicity: a computed height below 30 shows that the exact quotient is below 30.
\<close>

lemma rounded_fit:
  fixes fl :: "real \<Rightarrow> real" and u :: real
  assumes iw: "0 < img_width img" and ih: "0 < img_height img"
    and u: "0 \<le> u" "u \<le> 1 / 3"
    and err: "\<And>x. 0 < x \<Longrightarrow> \<bar>fl x - x\<bar> \<le> u * x"
    and mono: "\<And>x y. 0 < x \<Longrightarrow> x \<le> y \<Longrightarrow> fl x \<le> fl y"
    and nonpos: "\<And>x. x \<le> 0 \<Longrightarrow> fl x \<le> 0"
    and f30: "fl 30 = 30" and f40: "fl 40 = 40"
  shows "\<exists>w h. calculateImageDimensions_rounded fl img W H = Some (w, h)
           \<and> \<bar>w / h - real (img_width img) / real (img_height img)\<bar>
               \<le> 3 * u * (real (img_width img) / real (img_height img))
           \<and> 40 \<le> w \<and> 30 \<le> h"
proof -
  define r where "r = real (img_width img) / real (img_height img)"
  define ar where "ar = fl r"
  define h0 where "h0 = fl (W / ar)"
  have r: "0 < r" using iw ih by (simp add: r_def)
  have ar: "\<bar>ar - r\<bar> \<le> u * r" unfolding ar_def using r by (rule err)
  have "u * r \<le> (1 / 3) * r" using u r by (intro mult_right_mono) simp_all
  then have "(2 / 3) * r \<le> ar" using ar by (simp add: abs_le_iff)
  moreover have "0 < (2 / 3) * r" using r by simp
  ultimately have ar0: "0 < ar" by linarith
  have below: "c < 30 * ar" if "fl (c / ar) < 30" for c
  proof (rule ccontr)
    assume "\<not> c < 30 * ar"
    then have "30 \<le> c / ar" using ar0 by (simp add: field_simps)
    then have "fl 30 \<le> fl (c / ar)" by (intro mono) simp_all
    then show False using that f30 by simp
  qed
  have lift: "40 \<le> fl (30 * ar)" if "40 \<le> c" "c \<le> 30 * ar" for c
  proof -
    have "fl 40 \<le> fl (30 * ar)" using that by (intro mono) simp_all
    then show ?thesis using f40 by simp
  qed
  have lift': "40 \<le> fl (30 * ar)" if "40 \<le> fl (c * ar)" "c < 30" for c
  proof -
    have "0 < c * ar"
    proof (rule ccontr)
      assume "\<not> 0 < c * ar"
      then have "fl (c * ar) \<le> 0" by (intro nonpos) simp
      then show False using that(1) by simp
    qed
    moreover have "c * ar \<le> 30 * ar" using that(2) ar0 by simp
    ultimately have "fl (c * ar) \<le> fl (30 * ar)" by (rule mono)
    then show ?thesis using that(1) by simp
  qed
  have prod: "\<bar>fl (c * ar) / c - r\<bar> \<le> 3 * u * r" if "0 < c" for c
  proof -
    have "0 < c * ar" using that ar0 by simp
    then have "\<bar>fl (c * ar) - c * ar\<bar> \<le> u * (c * ar)" by (rule err)
    with r u ar that show ?thesis by (intro ratio_after_product) simp_all
  qed
  have quot: "\<bar>c / fl (c / ar) - r\<bar> \<le> 3 * u * r" if "0 < c" for c
  proof -
    have "0 < c / ar" using that ar0 by simp
    then have "\<bar>fl (c / ar) - c / ar\<bar> \<le> u * (c / ar)" by (rule err)
    with r u ar ar0 that show ?thesis by (intro ratio_after_quotient) simp_all
  qed
  have eval: "calculateImageDimensions_rounded fl img W H =
      (case (if H < h0 then (fl (H * ar), H) else (W, h0)) of (width, height) \<Rightarrow>
        (if width < 40 then Some (40, fl (40 / ar)) else Some (width, height)) \<bind>
        (\<lambda>(width, height). Some (if height < 30 then (fl (30 * ar), 30) else (width, height))))"
    using iw ih ar0
    by (simp add: calculateImageDimensions_rounded_def js_div_def minWidth_def minHeight_def
        r_def[symmetric] ar_def[symmetric] h0_def[symmetric] cong: if_cong)
  show ?thesis unfolding r_def[symmetric]
  proof (cases "H < h0")
    case fit_height: True
    show "\<exists>w h. calculateImageDimensions_rounded fl img W H = Some (w, h)
           \<and> \<bar>w / h - r\<bar> \<le> 3 * u * r \<and> 40 \<le> w \<and> 30 \<le> h"
    proof (cases "fl (H * ar) < 40")
      case narrow: True
      show ?thesis
      proof (cases "fl (40 / ar) < 30")
        case True
        then have "40 \<le> fl (30 * ar)" using below[of 40] lift[of 40] by simp
        then show ?thesis using fit_height narrow True prod[of 30] by (simp add: eval)
      next
        case False
        then show ?thesis using fit_height narrow quot[of 40] by (simp add: eval)
      qed
    next
      case wide: False
      show ?thesis
      proof (cases "H < 30")
        case True
        then have "40 \<le> fl (30 * ar)" using wide lift'[of H] by simp
        then show ?thesis using fit_height wide True prod[of 30] by (simp add: eval)
      next
        case False
        then show ?thesis using fit_height wide prod[of H] by (simp add: eval)
      qed
    qed
  next
    case fit_width: False
    show "\<exists>w h. calculateImageDimensions_rounded fl img W H = Some (w, h)
           \<and> \<bar>w / h - r\<bar> \<le> 3 * u * r \<and> 40 \<le> w \<and> 30 \<le> h"
    proof (cases "W < 40")
      case narrow: True
      show ?thesis
      proof (cases "fl (40 / ar) < 30")
        case True
        then have "40 \<le> fl (30 * ar)" using below[of 40] lift[of 40] by simp
        then show ?thesis using fit_width narrow True prod[of 30] by (simp add: eval)
      next
        case False
        then show ?thesis using fit_width narrow quot[of 40] by (simp add: eval)
      qed
    next
      case wide: False
      show ?thesis
      proof (cases "h0 < 30")
        case True
        then have "W < 30 * ar" using below[of W] by (simp add: h0_def)
        then have "40 \<le> fl (30 * ar)" using wide lift[of W] by simp
        then show ?thesis using fit_width wide True prod[of 30] by (simp add: eval)
      next
        case False
        then show ?thesis using fit_width wide quot[of W] by (simp add: eval h0_def)
      qed
    qed
  qed
qed

text \<open>
  C1 as stated fails on the numbers the code computes with. An image of 1 x 3 pixels
  in a column of the two-image layout (the box is \<^verbatim>\<open>availableWidth * 0.9\<close> by
  \<^verbatim>\<open>availableHeight * 0.9\<close> with \<^verbatim>\<open>availableWidth = 77.5\<close> and \<^verbatim>\<open>availableHeight = 217\<close>, lines
  165-174) gets the size 65.1 by 195.3, as doubles; the quotient of the two is not 1 / 3,
  and it does not round to the double of 1 / 3 either (it rounds to
  0.33333333333333326).
\<close>

theorem calculateImageDimensions_ratio_not_exact:
  "calculateImageDimensions_rounded binary64
      \<lparr>img_src = ''blob:a'', img_width = 1, img_height = 3\<rparr>
      (binary64 (77.5 * binary64 0.9)) (binary64 (217 * binary64 0.9))
     = Some (2290502622982963 / 35184372088832, 3435753934474445 / 17592186044416)
   \<and> (2290502622982963 / 35184372088832) / (3435753934474445 / 17592186044416)
       \<noteq> real 1 / real 3
   \<and> binary64 ((2290502622982963 / 35184372088832) / (3435753934474445 / 17592186044416))
       \<noteq> binary64 (real 1 / real 3)"
  by (simp add: calculateImageDimensions_rounded_def js_div_def minWidth_def minHeight_def
      binary64_eval)

text \<open>
  C1, amended: for every image with strictly positive intrinsic width and height
  (intrinsic ratio r = width / height) and every bounding box \<open>(W, H)\<close>, the size returned
  by \<open>calculateImageDimensions\<close>, computed in double precision, satisfies
  |width / height - r| <= 3 * r / 2^53 (the ratio is r up to three rounding errors),
  width >= 40 and height >= 30.
\<close>

theorem calculateImageDimensions_ratio_within_rounding:
  assumes "0 < img_width img" and "0 < img_height img"
  shows "\<exists>w h. calculateImageDimensions_rounded binary64 img W H = Some (w, h)
           \<and> \<bar>w / h - real (img_width img) / real (img_height img)\<bar>
               \<le> 3 * (real (img_width img) / real (img_height img)) / 2 ^ 53
           \<and> 40 \<le> w \<and> 30 \<le> h"
proof -
  have "\<exists>w h. calculateImageDimensions_rounded binary64 img W H = Some (w, h)
           \<and> \<bar>w / h - real (img_width img) / real (img_height img)\<bar>
               \<le> 3 * (1 / 2 ^ 53) * (real (img_width img) / real (img_height img))
           \<and> 40 \<le> w \<and> 30 \<le> h"
    using assms
  proof (rule rounded_fit)
    show "\<bar>binary64 x - x\<bar> \<le> 1 / 2 ^ 53 * x" if "0 < x" for x
      using binary64_error[OF that] by simp
    show "binary64 x \<le> binary64 y" if "0 < x" "x \<le> y" for x y
      using that by (rule binary64_mono)
    show "binary64 x \<le> 0" if "x \<le> 0" for x using that by (rule binary64_nonpos)
  qed (simp_all add: binary64_30 binary64_40)
  moreover have "3 * (1 / 2 ^ 53) * q = 3 * q / 2 ^ 53" for q :: real by simp
  ultimately show ?thesis by (simp only:)
qed

theorem calculateImageDimensions_ratio_within_rounding_witness:
  "0 < img_width \<lparr>img_src = ''blob:a'', img_width = 1, img_height = 3\<rparr>
   \<and> 0 < img_height \<lparr>img_src = ''blob:a'', img_width = 1, img_height = 3\<rparr>
   \<and> calculateImageDimensions_rounded binary64
      \<lparr>img_src = ''blob:a'', img_width = 1, img_height = 3\<rparr>
      (binary64 (77.5 * binary64 0.9)) (binary64 (217 * binary64 0.9))
     = Some (2290502622982963 / 35184372088832, 3435753934474445 / 17592186044416)
   \<and> \<bar>(2290502622982963 / 35184372088832) / (3435753934474445 / 17592186044416)
        - real 1 / real 3\<bar> \<le> 3 * (real 1 / real 3) / 2 ^ 53
   \<and> (40::real) \<le> 2290502622982963 / 35184372088832
   \<and> (30::real) \<le> 3435753934474445 / 17592186044416"
  using calculateImageDimensions_ratio_within_rounding
          [of "\<lparr>img_src = ''blob:a'', img_width = 1, img_height = 3\<rparr>"
              "binary64 (77.5 * binary64 0.9)" "binary64 (217 * binary64 0.9)"]
  by (simp add: calculateImageDimensions_rounded_def js_div_def minWidth_def minHeight_def
      binary64_eval)

section \<open>Steps and what they leave behind\<close>

lemma andThen_assoc: "andThen (andThen m f) g = andThen m (\<lambda>a. andThen (f a) g)"
  by (auto simp: andThen_def fun_eq_iff split: prod.splits sum.splits)

lemma andThen_cases:
  obtains (thrown) e w1 where "m w = (Inl e, w1)" "andThen m f w = (Inl e, w1)"
  | (returned) a w1 where "m w = (Inr a, w1)" "andThen m f w = f a w1"
proof (cases "m w")
  case (Pair r w1)
  then show ?thesis
    by (cases r) (auto simp: andThen_def intro: thrown returned)
qed

lemma andThen_Inr_D:
  assumes "andThen m f w = (Inr b, w')"
  obtains a w1 where "m w = (Inr a, w1)" "f a w1 = (Inr b, w')"
  using assms by (auto simp: andThen_def split: prod.splits sum.splits)


lemma extends_by_refl: "extends_by ok w w"
  by (simp add: extends_by_def)

lemma extends_by_thrown [simp]: "extends_by ok w (w'\<lparr>thrown := t\<rparr>) = extends_by ok w w'"
  by (simp add: extends_by_def)

lemma extends_by_trans: "extends_by ok w1 w2 \<Longrightarrow> extends_by ok w2 w3 \<Longrightarrow> extends_by ok w1 w3"
  by (auto simp: extends_by_def)

lemma only_calls_D: "only_calls ok m \<Longrightarrow> m w = (r, w') \<Longrightarrow> extends_by ok w w'"
  by (auto simp: only_calls_def dest: spec[of _ w])

lemma saved_extends: "extends_by ok w w' \<Longrightarrow> saved w' = saved w"
  by (simp add: extends_by_def)

lemma only_calls_andThen:
  assumes "only_calls ok m" "\<And>a. only_calls ok (f a)"
  shows "only_calls ok (andThen m f)"
  unfolding only_calls_def
proof
  fix w
  obtain r w1 where m: "m w = (r, w1)" by (cases "m w")
  have e1: "extends_by ok w w1" using assms(1) m by (rule only_calls_D)
  show "extends_by ok w (snd (andThen m f w))"
  proof (cases r)
    case (Inl e)
    then show ?thesis using m e1 by (simp add: andThen_def)
  next
    case (Inr a)
    have "extends_by ok w1 (snd (f a w1))" using assms(2)[of a] by (simp add: only_calls_def)
    then show ?thesis using Inr m e1 by (auto simp: andThen_def intro: extends_by_trans)
  qed
qed

lemma only_calls_catch:
  assumes "only_calls ok m" "\<And>e. only_calls ok (h e)"
  shows "only_calls ok (catch m h)"
  unfolding only_calls_def
proof
  fix w
  obtain r w1 where m: "m w = (r, w1)" by (cases "m w")
  have e1: "extends_by ok w w1" using assms(1) m by (rule only_calls_D)
  show "extends_by ok w (snd (catch m h w))"
  proof (cases r)
    case (Inr a)
    then show ?thesis using m e1 by (simp add: catch_def)
  next
    case (Inl e)
    have "extends_by ok w1 (snd (h e w1))" using assms(2)[of e] by (simp add: only_calls_def)
    then show ?thesis using Inl m e1 by (auto simp: catch_def intro: extends_by_trans)
  qed
qed

lemma only_calls_invoke: "ok c \<Longrightarrow> only_calls ok (invoke env c)"
  by (simp add: only_calls_def invoke_def extends_by_def)

lemma only_calls_encodeText: "only_calls ok (encodeText env t)"
  by (simp add: only_calls_def encodeText_def extends_by_def split: option.splits)

lemma only_calls_addTextAsImage: "only_calls ok (addTextAsImage env t x y fs)"
  by (simp add: only_calls_def addTextAsImage_def extends_by_def)

text \<open>A handler, when it runs, places at most one rasterised caption.\<close>

lemma run_task_extends:
  assumes "\<And>d r. ok (AddImage (DataURL d) ''PNG'' r)"
  shows "extends_by ok w (run_task env t w)"
  using assms by (cases t) (simp add: onload_def invoke_def extends_by_def Let_def)

lemma fold_run_task_extends:
  assumes "\<And>d r. ok (AddImage (DataURL d) ''PNG'' r)"
  shows "extends_by ok w (fold (run_task env) ts w)"
proof (induction ts arbitrary: w)
  case Nil
  show ?case by (simp add: extends_by_refl)
next
  case (Cons t ts)
  have "extends_by ok w (run_task env t w)" using assms by (rule run_task_extends)
  moreover have "extends_by ok (run_task env t w) (fold (run_task env) ts (run_task env t w))"
    by (rule Cons.IH)
  ultimately show ?case by (auto intro: extends_by_trans)
qed

lemma run_pending_extends:
  assumes "\<And>d r. ok (AddImage (DataURL d) ''PNG'' r)"
  shows "extends_by ok w (run_pending env w)"
proof -
  have "extends_by ok w (w\<lparr>pending := []\<rparr>)" by (simp add: extends_by_def)
  moreover have "extends_by ok (w\<lparr>pending := []\<rparr>) (run_pending env w)"
    unfolding run_pending_def using assms by (simp add: fold_run_task_extends)
  ultimately show ?thesis by (rule extends_by_trans)
qed

lemma only_calls_loadImage:
  assumes "\<And>d r. ok (AddImage (DataURL d) ''PNG'' r)"
  shows "only_calls ok (loadImage env u)"
proof -
  have "extends_by ok w (run_pending env w)" for w
    using assms by (rule run_pending_extends)
  then show ?thesis
    by (simp add: only_calls_def loadImage_def Let_def extends_by_refl split: option.splits)
qed

lemma only_calls_awaited:
  assumes "\<And>d r. ok (AddImage (DataURL d) ''PNG'' r)"
  shows "only_calls ok (addTextAsImage_awaited env t x y fs)"
proof -
  have "extends_by ok w (run_pending env w)" for w
    using assms by (rule run_pending_extends)
  then have "only_calls ok (\<lambda>w. (Inr (), run_pending env w))"
    by (simp add: only_calls_def)
  then show ?thesis
    unfolding addTextAsImage_awaited_def
    by (intro only_calls_andThen only_calls_addTextAsImage)
qed

lemma only_calls_addKoreanText:
  assumes "\<And>a b. ok (SetFont a b)" "\<And>s. ok (SetFontSize s)" "\<And>s x y. ok (Text s x y)"
  shows "only_calls ok (addKoreanText env t x y fs)"
  unfolding addKoreanText_def
  by (intro only_calls_catch only_calls_andThen only_calls_invoke only_calls_encodeText
        only_calls_addTextAsImage assms)



lemma only_calls_branch_one: "only_calls placing (branch_one env data)"
  unfolding branch_one_def Let_def
  by (intro only_calls_andThen only_calls_catch only_calls_loadImage only_calls_addKoreanText
        only_calls_awaited only_calls_invoke) (simp_all add: placing_def)

lemma only_calls_branch_two: "only_calls placing (branch_two env data)"
  unfolding branch_two_def Let_def
  by (intro only_calls_andThen only_calls_catch only_calls_loadImage only_calls_addKoreanText
        only_calls_awaited only_calls_invoke) (simp_all add: placing_def)

lemma page_count_extends:
  assumes "extends_by placing w w'"
  shows "page_count (calls w') = page_count (calls w)"
proof -
  obtain cs where cs: "calls w' = calls w @ cs" "list_all placing cs"
    using assms by (auto simp: extends_by_def)
  have "filter (\<lambda>c. c = AddPage) cs = []"
    using cs(2) by (induction cs) (auto simp: placing_def)
  then show ?thesis by (simp add: cs(1) page_count_def)
qed



section \<open>The rasterised caption\<close>

text \<open>
  The handler on its own: for every raster of positive pixel dimensions it places the
  raster with width 120 and height 120 * (raster height / raster width), centred at the
  point it was registered with, when the writer accepts the call.
\<close>

lemma onload_places_caption_centred:
  assumes "0 < img_width img" "0 < img_height img"
    and "\<forall>r. \<not> throws env (calls w) (AddImage (DataURL dataURL) ''PNG'' r)"
  shows "\<exists>textWidth textHeight.
           textWidth = 120
         \<and> textHeight = 120 * (real (img_height img) / real (img_width img))
         \<and> onload env dataURL img x y w =
             (Inr (), w\<lparr>calls := calls w @
                [AddImage (DataURL dataURL) ''PNG''
                   (Some (x - textWidth / 2, y - textHeight / 2, textWidth, textHeight))]\<rparr>)"
  using assms by (simp add: onload_def js_div_def invoke_def Let_def)

text \<open>\<^verbatim>\<open>addKoreanText\<close> is its direct text placement under a \<^verbatim>\<open>catch\<close> that starts the fallback.\<close>

lemma addKoreanText_try_catch:
  "addKoreanText env text x y fontSize =
     catch (direct_text env text x y fontSize) (\<lambda>error. addTextAsImage env text x y (fontSize * 3))"
  by (simp add: addKoreanText_def direct_text_def)

text \<open>
  C8: whenever the canvas fallback is used for the caption, that is, whenever the
  direct text placement of \<^verbatim>\<open>addKoreanText(text, x, y, fontSize)\<close> throws: the fallback
  registers one handler for the rasterised text, with the anchor point \<open>(x, y)\<close> of the
  caption; for every raster of positive pixel dimensions that handler places the
  rasterised caption with width exactly 120 units, height exactly
  120 * (rasterHeight / rasterWidth) and position (x - width / 2, y - height / 2), that
  is, centred at the anchor point (provided the writer accepts the call); and when the
  handler has run on the raster of the 2000 x 200 canvas, the call log has received
  that placement, 120 x 12 units around \<open>(x, y)\<close>.
\<close>

theorem fallback_places_caption_centred:
  assumes used: "fst (direct_text env text x y fontSize w) = Inl e"
  shows "pending (snd (addKoreanText env text x y fontSize w)) =
           pending w @ [Onload \<lparr>cv_width = 2000, cv_height = 200, cv_font_px = fontSize * 3,
                                 cv_text = text\<rparr> x y]
       \<and> (\<forall>dataURL img v.
             0 < img_width img \<and> 0 < img_height img
           \<and> (\<forall>r. \<not> throws env (calls v) (AddImage (DataURL dataURL) ''PNG'' r))
           \<longrightarrow> (\<exists>textWidth textHeight.
                 textWidth = 120
               \<and> textHeight = 120 * (real (img_height img) / real (img_width img))
               \<and> onload env dataURL img x y v =
                   (Inr (), v\<lparr>calls := calls v @
                      [AddImage (DataURL dataURL) ''PNG''
                         (Some (x - textWidth / 2, y - textHeight / 2, textWidth, textHeight))]\<rparr>)))
       \<and> (pending w = [] \<and> (\<forall>cs d r. \<not> throws env cs (AddImage (DataURL d) ''PNG'' r))
           \<longrightarrow> calls (run_pending env (snd (addKoreanText env text x y fontSize w))) =
                 calls (snd (addKoreanText env text x y fontSize w)) @
                   [AddImage (DataURL \<lparr>cv_width = 2000, cv_height = 200,
                                        cv_font_px = fontSize * 3, cv_text = text\<rparr>) ''PNG''
                      (Some (x - 120 / 2, y - (120 * (200 / 2000)) / 2, 120, 120 * (200 / 2000)))])"
proof -
  let ?d = "\<lparr>cv_width = 2000, cv_height = 200, cv_font_px = fontSize * 3, cv_text = text\<rparr>"
  let ?w' = "snd (addKoreanText env text x y fontSize w)"
  obtain w1 where d: "direct_text env text x y fontSize w = (Inl e, w1)"
    using used by (cases "direct_text env text x y fontSize w") simp
  have p: "pending w1 = pending w"
    using d
    by (auto simp: direct_text_def andThen_def invoke_def encodeText_def
        split: if_splits option.splits)
  have w': "?w' = w1\<lparr>pending := pending w @ [Onload ?d x y]\<rparr>"
    using d p by (simp add: addKoreanText_try_catch catch_def addTextAsImage_def)
  have registered: "pending ?w' = pending w @ [Onload ?d x y]"
    by (simp add: w')
  have handler: "\<exists>textWidth textHeight.
                 textWidth = 120
               \<and> textHeight = 120 * (real (img_height img) / real (img_width img))
               \<and> onload env dataURL img x y v =
                   (Inr (), v\<lparr>calls := calls v @
                      [AddImage (DataURL dataURL) ''PNG''
                         (Some (x - textWidth / 2, y - textHeight / 2, textWidth, textHeight))]\<rparr>)"
    if "0 < img_width img \<and> 0 < img_height img
           \<and> (\<forall>r. \<not> throws env (calls v) (AddImage (DataURL dataURL) ''PNG'' r))"
    for dataURL img v
    using that onload_places_caption_centred[of img env v dataURL x y] by simp
  have placed: "calls (run_pending env ?w') = calls ?w' @
                   [AddImage (DataURL ?d) ''PNG''
                      (Some (x - 120 / 2, y - (120 * (200 / 2000)) / 2, 120, 120 * (200 / 2000)))]"
    if "pending w = [] \<and> (\<forall>cs d r. \<not> throws env cs (AddImage (DataURL d) ''PNG'' r))"
    using that
    by (simp add: w' run_pending_def onload_def decoded_def js_div_def invoke_def Let_def)
  from registered handler placed show ?thesis by blast
qed

theorem fallback_places_caption_centred_witness:
  "fst (direct_text ((cooperative (\<lambda>u. None))\<lparr>encode := (\<lambda>t. None)\<rparr>)
          ''2024001 Kim'' 105 35 28 new_jsPDF) = Inl (URIError ''2024001 Kim'')
   \<and> pending (snd (addKoreanText ((cooperative (\<lambda>u. None))\<lparr>encode := (\<lambda>t. None)\<rparr>)
          ''2024001 Kim'' 105 35 28 new_jsPDF))
      = [Onload \<lparr>cv_width = 2000, cv_height = 200, cv_font_px = 84, cv_text = ''2024001 Kim''\<rparr>
           105 35]
   \<and> calls (run_pending ((cooperative (\<lambda>u. None))\<lparr>encode := (\<lambda>t. None)\<rparr>)
        (snd (addKoreanText ((cooperative (\<lambda>u. None))\<lparr>encode := (\<lambda>t. None)\<rparr>)
          ''2024001 Kim'' 105 35 28 new_jsPDF)))
      = [SetFont ''helvetica'' ''bold'', SetFontSize 28,
         AddImage (DataURL \<lparr>cv_width = 2000, cv_height = 200, cv_font_px = 84,
                             cv_text = ''2024001 Kim''\<rparr>) ''PNG'' (Some (45, 29, 120, 12))]"
  using fallback_places_caption_centred
          [of "(cooperative (\<lambda>u. None))\<lparr>encode := (\<lambda>t. None)\<rparr>" "''2024001 Kim''" 105 35 28
              new_jsPDF "URIError ''2024001 Kim''"]
  by (simp add: direct_text_def addKoreanText_def catch_def andThen_def invoke_def encodeText_def
        addTextAsImage_def cooperative_def new_jsPDF_def)

text \<open>
  \<open>addKoreanText\<close> never throws: its own \<^verbatim>\<open>catch\<close> takes every exception of the direct
  placement, and the fallback it starts returns a promise. So the \<^verbatim>\<open>catch\<close> at the call
  sites, the only place where the fallback is awaited, is never entered.
\<close>

lemma addKoreanText_never_throws: "fst (addKoreanText env t x y fs w) = Inr ()"
  by (simp add: addKoreanText_def catch_def andThen_def invoke_def encodeText_def
        addTextAsImage_def Let_def split: option.splits)

lemma call_site_catch_unreachable:
  "catch (addKoreanText env t x y fs) h = addKoreanText env t x y fs"
proof
  fix w
  obtain r w' where a: "addKoreanText env t x y fs w = (r, w')"
    by (cases "addKoreanText env t x y fs w")
  then have "r = Inr ()" using addKoreanText_never_throws[of env t x y fs w] by simp
  then show "catch (addKoreanText env t x y fs) h w = addKoreanText env t x y fs w"
    using a by (simp add: catch_def)
qed

text \<open>
  The fallback end to end: when the encoding of the caption throws and the writer
  accepts every call, the caption asked for at \<open>(x, y)\<close> ends up as a 120 x 12 image
  centred at \<open>(x, y)\<close>, once the handler has run.
\<close>

lemma fallback_places_caption_at_anchor:
  assumes "encode env t = None"
    and "\<And>cs c. \<not> throws env cs c"
    and "pending w = []"
  shows "calls (run_pending env (snd (addKoreanText env t x y fs w))) =
           calls w @ [SetFont ''helvetica'' ''bold'', SetFontSize fs,
             AddImage (DataURL \<lparr>cv_width = 2000, cv_height = 200, cv_font_px = fs * 3,
                                 cv_text = t\<rparr>)
               ''PNG'' (Some (x - 60, y - 6, 120, 12))]"
  using assms
  by (simp add: addKoreanText_def catch_def andThen_def invoke_def encodeText_def
        addTextAsImage_def run_pending_def onload_def decoded_def js_div_def Let_def)

section \<open>Three images: the two layouts again\<close>

lemma branch_three_split:
  "branch_three env data =
     andThen (branch_two env data) (\<lambda>_.
     andThen (invoke env AddPage) (\<lambda>_.
     branch_one env (data\<lparr>images := [images data ! 2]\<rparr>)))"
  by (simp add: branch_three_def branch_two_def branch_one_def Let_def andThen_assoc)

text \<open>
  C6: for an input of three images, what the three-image branch does for page 1 (the
  caption and images 1 and 2, with their placements) is what the two-image branch does
  for the same two images, and what it does for page 2 is what the one-image branch does
  for image 3: as a step on the writer's state, the branch of the source equals the
  two-image branch, then \<^verbatim>\<open>addPage\<close>, then the one-image branch.
\<close>

theorem branch_three_reproduces_two_then_one:
  "branch_three env \<lparr>studentId = sid, studentName = sname, images = [a, b, c]\<rparr> =
     two_then_one env sid sname a b c"
  by (simp add: two_then_one_def branch_three_def branch_two_def branch_one_def Let_def
        andThen_assoc)

section \<open>Pages and errors\<close>

lemma branch_three_pages:
  assumes "branch_three env data w = (r, w')"
  shows "saved w' = saved w"
    and "r = Inr u \<Longrightarrow> page_count (calls w') = page_count (calls w) + 1"
proof -
  let ?rest = "\<lambda>_::unit. andThen (invoke env AddPage)
                 (\<lambda>_. branch_one env (data\<lparr>images := [images data ! 2]\<rparr>))"
  have run: "andThen (branch_two env data) ?rest w = (r, w')"
    using assms by (simp add: branch_three_split)
  obtain r2 w2 where b2: "branch_two env data w = (r2, w2)" by (cases "branch_two env data w")
  have e2: "extends_by placing w w2" using only_calls_branch_two b2 by (rule only_calls_D)
  show "saved w' = saved w"
  proof (cases r2)
    case (Inl e)
    then show ?thesis using run b2 e2 by (simp add: andThen_def saved_extends)
  next
    case (Inr a)
    show ?thesis
    proof (cases "throws env (calls w2) AddPage")
      case True
      then show ?thesis using run b2 e2 Inr by (auto simp: andThen_def invoke_def saved_extends)
    next
      case False
      let ?w3 = "w2\<lparr>calls := calls w2 @ [AddPage]\<rparr>"
      have b1: "branch_one env (data\<lparr>images := [images data ! 2]\<rparr>) ?w3 = (r, w')"
        using run b2 Inr False by (simp add: andThen_def invoke_def)
      have "extends_by placing ?w3 w'" using only_calls_branch_one b1 by (rule only_calls_D)
      then have "saved w' = saved ?w3" by (rule saved_extends)
      then show ?thesis using e2 by (simp add: saved_extends)
    qed
  qed
  show "page_count (calls w') = page_count (calls w) + 1" if "r = Inr u"
  proof -
    from run that obtain a w2' where s2: "branch_two env data w = (Inr a, w2')"
      and rest: "?rest a w2' = (Inr u, w')"
      by (auto elim: andThen_Inr_D)
    from rest obtain a3 w3 where s3: "invoke env AddPage w2' = (Inr a3, w3)"
      and s1: "branch_one env (data\<lparr>images := [images data ! 2]\<rparr>) w3 = (Inr u, w')"
      by (auto elim: andThen_Inr_D)
    have w3: "calls w3 = calls w2' @ [AddPage]"
      using s3 by (auto simp: invoke_def split: if_splits)
    have "page_count (calls w2') = page_count (calls w)"
      using only_calls_D[OF only_calls_branch_two s2] by (rule page_count_extends)
    moreover have "page_count (calls w') = page_count (calls w3)"
      using only_calls_D[OF only_calls_branch_one s1] by (rule page_count_extends)
    ultimately show ?thesis by (simp add: w3 page_count_def)
  qed
qed

text \<open>
  The branch chosen by the number of images saves nothing, and where it returns it has
  added one page for three images and none otherwise.
\<close>

lemma images_part_pages:
  assumes "(if length (images data) = 1 then branch_one env data
        else if length (images data) = 2 then branch_two env data
        else if length (images data) = 3 then branch_three env data
        else skip) w = (r, w')"
  shows "saved w' = saved w"
    and "r = Inr u \<Longrightarrow> page_count (calls w') =
           page_count (calls w) + (if length (images data) = 3 then 1 else 0)"
proof -
  consider (one) "length (images data) = 1" | (two) "length (images data) = 2"
    | (three) "length (images data) = 3" | (other) "length (images data) \<notin> {1, 2, 3}"
    by auto
  then show "saved w' = saved w"
  proof cases
    case one
    then show ?thesis using only_calls_D[OF only_calls_branch_one, of env data w r w'] assms
      by (simp add: saved_extends)
  next
    case two
    then show ?thesis using only_calls_D[OF only_calls_branch_two, of env data w r w'] assms
      by (simp add: saved_extends)
  next
    case three
    then show ?thesis using branch_three_pages(1)[of env data w r w'] assms by simp
  next
    case other
    then show ?thesis using assms by (auto simp: skip_def)
  qed
  show "page_count (calls w') = page_count (calls w) + (if length (images data) = 3 then 1 else 0)"
    if "r = Inr u"
  proof -
    consider (one) "length (images data) = 1" | (two) "length (images data) = 2"
      | (three) "length (images data) = 3" | (other) "length (images data) \<notin> {1, 2, 3}"
      by auto
    then show ?thesis
    proof cases
      case one
      then show ?thesis using only_calls_D[OF only_calls_branch_one, of env data w r w'] assms
        by (simp add: page_count_extends)
    next
      case two
      then show ?thesis using only_calls_D[OF only_calls_branch_two, of env data w r w'] assms
        by (simp add: page_count_extends)
    next
      case three
      then show ?thesis using branch_three_pages(2)[of env data w r w' u] assms that by simp
    next
      case other
      then show ?thesis using assms by (auto simp: skip_def)
    qed
  qed
qed

text \<open>
  C4: for every valid image count (1, 2 or 3), the document that \<open>generatePDF\<close>
  produces, that is the one it has saved when it returns without error, has exactly 1,
  1 and 2 pages respectively (and the name \<^verbatim>\<open>{studentId}_{studentName}.pdf\<close>).
\<close>

theorem generatePDF_page_count:
  assumes ok: "fst (generatePDF env data) = Inr ()"
    and n: "length (images data) = 1 \<or> length (images data) = 2 \<or> length (images data) = 3"
  shows "\<exists>doc. saved (snd (generatePDF env data)) =
                 Some (studentId data @ ''_'' @ studentName data @ ''.pdf'', doc)
             \<and> page_count doc = (if length (images data) = 3 then 2 else 1)"
proof -
  let ?name = "studentId data @ ''_'' @ studentName data @ ''.pdf''"
  obtain r w where tb: "try_block env data new_jsPDF = (r, w)"
    by (cases "try_block env data new_jsPDF")
  from ok tb have imp: "import_ok env" and r: "r = Inr ()"
    by (auto simp: generatePDF_def split: if_splits sum.splits)
  have gen: "snd (generatePDF env data) = w"
    using tb imp r by (simp add: generatePDF_def)
  from tb r obtain a w1 where
    part: "(if length (images data) = 1 then branch_one env data
        else if length (images data) = 2 then branch_two env data
        else if length (images data) = 3 then branch_three env data
        else skip) new_jsPDF = (Inr a, w1)"
    and sv: "pdf_save env ?name w1 = (Inr (), w)"
    unfolding try_block_def Let_def by (auto elim: andThen_Inr_D)
  have "page_count (calls w1) =
      page_count (calls new_jsPDF) + (if length (images data) = 3 then 1 else 0)"
    using part by (rule images_part_pages(2)) simp
  then have pc: "page_count (calls w1) = (if length (images data) = 3 then 2 else 1)"
    by (simp add: new_jsPDF_def page_count_def)
  have "saved w = Some (?name, calls w1)"
    using sv by (auto simp: pdf_save_def split: if_splits)
  then show ?thesis using pc gen by simp
qed

lemmas eval_defs = generatePDF_def try_block_def branch_one_def branch_two_def branch_three_def
  andThen_def catch_def skip_def invoke_def pdf_save_def encodeText_def
  addTextAsImage_def addTextAsImage_awaited_def addKoreanText_def loadImage_def run_pending_def
  onload_def decoded_def new_jsPDF_def execution_def cooperative_def
  calculateImageDimensions_def js_div_def minWidth_def minHeight_def
  pageWidth_def pageHeight_def margin_def contentWidth_def contentHeight_def first_page_def
  page_count_def Let_def

theorem generatePDF_page_count_witness:
  "fst (generatePDF (cooperative (\<lambda>u. Some \<lparr>img_src = u, img_width = 400, img_height = 300\<rparr>))
       \<lparr>studentId = ''2024001'', studentName = ''Kim'',
        images = [\<lparr>file_name = ''a.jpg'', url = ''blob:a''\<rparr>,
                  \<lparr>file_name = ''b.jpg'', url = ''blob:b''\<rparr>,
                  \<lparr>file_name = ''c.jpg'', url = ''blob:c''\<rparr>]\<rparr>) = Inr ()
   \<and> (\<exists>doc. saved (snd (generatePDF
         (cooperative (\<lambda>u. Some \<lparr>img_src = u, img_width = 400, img_height = 300\<rparr>))
         \<lparr>studentId = ''2024001'', studentName = ''Kim'',
          images = [\<lparr>file_name = ''a.jpg'', url = ''blob:a''\<rparr>,
                    \<lparr>file_name = ''b.jpg'', url = ''blob:b''\<rparr>,
                    \<lparr>file_name = ''c.jpg'', url = ''blob:c''\<rparr>]\<rparr>)) = Some (''2024001_Kim.pdf'', doc)
         \<and> page_count doc = 2)"
  using generatePDF_page_count
      [of "cooperative (\<lambda>u. Some \<lparr>img_src = u, img_width = 400, img_height = 300\<rparr>)"
          "\<lparr>studentId = ''2024001'', studentName = ''Kim'',
            images = [\<lparr>file_name = ''a.jpg'', url = ''blob:a''\<rparr>,
                      \<lparr>file_name = ''b.jpg'', url = ''blob:b''\<rparr>,
                      \<lparr>file_name = ''c.jpg'', url = ''blob:c''\<rparr>]\<rparr>"]
  by (simp add: eval_defs)

text \<open>
  Such runs exist for every input: when every locator loads and nothing else fails,
  \<open>generatePDF\<close> returns without error.
\<close>

lemma cooperative_run_succeeds:
  assumes "\<And>u. l u \<noteq> None"
  shows "fst (generatePDF (cooperative l) data) = Inr ()"
proof -
  have l: "\<exists>i. l u = Some i" for u using assms[of u] by auto
  show ?thesis
    using l[of "url (images data ! 0)"] l[of "url (images data ! 1)"] l[of "url (images data ! 2)"]
    by (auto simp: generatePDF_def try_block_def branch_one_def branch_two_def
        branch_three_def andThen_def catch_def skip_def invoke_def pdf_save_def loadImage_def
        addKoreanText_def encodeText_def
        run_pending_def new_jsPDF_def cooperative_def Let_def)
qed

text \<open>
  Whatever the \<^verbatim>\<open>try\<close> block throws, \<open>generatePDF\<close> rejects with exactly the one generic
  error carrying the localized message; no document has been saved, and none is saved
  afterwards.
\<close>

lemma try_block_failure_single_error:
  assumes imp: "import_ok env"
    and thrown: "fst (try_block env data new_jsPDF) = Inl e"
  shows "fst (generatePDF env data) = Inl (GenerationError generation_error_message)
       \<and> saved (snd (generatePDF env data)) = None
       \<and> saved (run_pending env (snd (generatePDF env data))) = None"
proof -
  let ?name = "studentId data @ ''_'' @ studentName data @ ''.pdf''"
  let ?part = "(if length (images data) = 1 then branch_one env data
        else if length (images data) = 2 then branch_two env data
        else if length (images data) = 3 then branch_three env data
        else skip)"
  obtain w where tb: "try_block env data new_jsPDF = (Inl e, w)"
    using thrown by (cases "try_block env data new_jsPDF") simp
  have res: "generatePDF env data = (Inl (GenerationError generation_error_message), w)"
    using imp tb by (simp add: generatePDF_def)
  obtain r1 w1 where part: "?part new_jsPDF = (r1, w1)" by (cases "?part new_jsPDF")
  have s1: "saved w1 = None"
    using images_part_pages(1)[OF part] by (simp add: new_jsPDF_def)
  have "saved w = None"
  proof (cases r1)
    case (Inl e1)
    then show ?thesis using tb part s1 by (simp add: try_block_def andThen_def)
  next
    case (Inr a)
    then show ?thesis using tb part s1
      by (auto simp: try_block_def andThen_def pdf_save_def Let_def split: if_splits)
  qed
  moreover have "saved (run_pending env w) = saved w"
    using run_pending_extends[of "\<lambda>_. True" w env] by (simp add: saved_extends)
  ultimately show ?thesis using res by simp
qed

text \<open>
  Which failures reach the \<^verbatim>\<open>catch\<close>: a failed load of any of the images used, a writer
  that refuses the photos, and a writer that refuses to save.
\<close>

lemma andThen_throws_left:
  assumes "\<exists>e. fst (m w) = Inl e"
  shows "\<exists>e. fst (andThen m f w) = Inl e"
  using assms by (cases "m w") (auto simp: andThen_def)

lemma andThen_throws_right:
  assumes "\<And>a w'. \<exists>e. fst (f a w') = Inl e"
  shows "\<exists>e. fst (andThen m f w) = Inl e"
proof (cases rule: andThen_cases[of m w f])
  case (thrown e w1)
  then show ?thesis by simp
next
  case (returned a w1)
  then show ?thesis using assms[of a w1] by simp
qed

lemma loadImage_throws: "load env u = None \<Longrightarrow> \<exists>e. fst (loadImage env u w) = Inl e"
  by (simp add: loadImage_def Let_def)

lemma invoke_throws: "throws env (calls w) c \<Longrightarrow> \<exists>e. fst (invoke env c w) = Inl e"
  by (simp add: invoke_def)

lemma branch_one_load_failure:
  assumes "load env (url (images data ! 0)) = None"
  shows "\<exists>e. fst (branch_one env data w) = Inl e"
  unfolding branch_one_def
  by (rule andThen_throws_left) (rule loadImage_throws[OF assms])

lemma branch_two_load_failure:
  assumes "i < 2" "load env (url (images data ! i)) = None"
  shows "\<exists>e. fst (branch_two env data w) = Inl e"
proof -
  from assms(1) consider "i = 0" | "i = 1" by linarith
  then show ?thesis
  proof cases
    case 1
    then show ?thesis unfolding branch_two_def
      using assms(2) by (intro andThen_throws_left loadImage_throws) simp
  next
    case 2
    then show ?thesis unfolding branch_two_def
      using assms(2) by (intro andThen_throws_right andThen_throws_left loadImage_throws) simp
  qed
qed

lemma branch_three_load_failure:
  assumes "i < 3" "load env (url (images data ! i)) = None"
  shows "\<exists>e. fst (branch_three env data w) = Inl e"
proof (cases "i < 2")
  case True
  then show ?thesis unfolding branch_three_split
    using assms(2) by (intro andThen_throws_left branch_two_load_failure)
next
  case False
  then have i: "i = 2" using assms(1) by simp
  have "\<exists>e. fst (branch_one env (data\<lparr>images := [images data ! 2]\<rparr>) w') = Inl e" for w'
    using assms(2) i by (intro branch_one_load_failure) simp
  then show ?thesis unfolding branch_three_split
    by (intro andThen_throws_right)
qed

lemma load_failure_reaches_catch:
  assumes "length (images data) = 1 \<or> length (images data) = 2 \<or> length (images data) = 3"
    and "i < length (images data)" "load env (url (images data ! i)) = None"
  shows "\<exists>e. fst (try_block env data w) = Inl e"
  unfolding try_block_def
  using assms
  by (intro andThen_throws_left)
     (auto intro: branch_one_load_failure branch_two_load_failure branch_three_load_failure)

lemma save_failure_reaches_catch:
  assumes "\<And>cs. throws env cs (Save (studentId data @ ''_'' @ studentName data @ ''.pdf''))"
  shows "\<exists>e. fst (try_block env data w) = Inl e"
  unfolding try_block_def Let_def
  using assms by (intro andThen_throws_right) (simp add: pdf_save_def)

lemma branch_one_photo_failure:
  assumes "\<And>cs i r. throws env cs (AddImage (Img i) ''JPEG'' r)"
  shows "\<exists>e. fst (branch_one env data w) = Inl e"
  unfolding branch_one_def Let_def
  by (intro andThen_throws_right invoke_throws assms)

lemma branch_two_photo_failure:
  assumes "\<And>cs i r. throws env cs (AddImage (Img i) ''JPEG'' r)"
  shows "\<exists>e. fst (branch_two env data w) = Inl e"
  unfolding branch_two_def Let_def
  by (intro andThen_throws_right andThen_throws_left invoke_throws assms)

lemma photo_failure_reaches_catch:
  assumes "length (images data) = 1 \<or> length (images data) = 2 \<or> length (images data) = 3"
    and "\<And>cs i r. throws env cs (AddImage (Img i) ''JPEG'' r)"
  shows "\<exists>e. fst (try_block env data w) = Inl e"
  unfolding try_block_def branch_three_split
  using assms(1)
  by (intro andThen_throws_left)
     (auto intro!: branch_one_photo_failure branch_two_photo_failure andThen_throws_left assms(2))

section \<open>Which failures abort the generation\<close>

text \<open>
  The steps of the caption throw nothing that stops the generation: the direct text
  placement is under the \<^verbatim>\<open>catch\<close> of \<^verbatim>\<open>addKoreanText\<close>, and a handler that throws does so in
  the event loop. Every other step, when it returns, has thrown nothing.
\<close>

lemma stays_quiet_on_return: "stays_quiet m \<Longrightarrow> quiet_on_return m"
  by (simp add: stays_quiet_def quiet_on_return_def)

lemma quiet_on_return_andThen:
  assumes "quiet_on_return m" "\<And>a. quiet_on_return (f a)"
  shows "quiet_on_return (andThen m f)"
  unfolding quiet_on_return_def
proof (intro allI impI)
  fix w b
  assume c: "quiet w" and r: "fst (andThen m f w) = Inr b"
  show "quiet (snd (andThen m f w))"
  proof (cases rule: andThen_cases[of m w f])
    case (thrown e w1)
    then show ?thesis using r by simp
  next
    case (returned a w1)
    then have "quiet w1" using assms(1) c by (auto simp: quiet_on_return_def dest: spec[of _ w])
    then show ?thesis using assms(2)[of a] returned r by (auto simp: quiet_on_return_def)
  qed
qed

lemma stays_quiet_andThen:
  assumes "stays_quiet m" "\<And>a. stays_quiet (f a)"
  shows "stays_quiet (andThen m f)"
  unfolding stays_quiet_def
proof (intro allI impI)
  fix w
  assume c: "quiet w"
  then have c1: "quiet (snd (m w))" using assms(1) by (simp add: stays_quiet_def)
  show "quiet (snd (andThen m f w))"
  proof (cases rule: andThen_cases[of m w f])
    case (thrown e w1)
    then show ?thesis using c1 by simp
  next
    case (returned a w1)
    then show ?thesis using assms(2)[of a] c1 by (auto simp: stays_quiet_def)
  qed
qed

lemma catch_cases:
  obtains (returned) a w1 where "m w = (Inr a, w1)" "catch m h w = (Inr a, w1)"
  | (caught) e w1 where "m w = (Inl e, w1)" "catch m h w = h e w1"
proof (cases "m w")
  case (Pair r w1)
  then show ?thesis
    by (cases r) (auto simp: catch_def intro: returned caught)
qed

lemma stays_quiet_catch:
  assumes "stays_quiet m" "\<And>e. stays_quiet (h e)"
  shows "stays_quiet (catch m h)"
  unfolding stays_quiet_def
proof (intro allI impI)
  fix w
  assume c: "quiet w"
  then have c1: "quiet (snd (m w))" using assms(1) by (simp add: stays_quiet_def)
  show "quiet (snd (catch m h w))"
  proof (cases rule: catch_cases[of m w h])
    case (returned a w1)
    then show ?thesis using c1 by simp
  next
    case (caught e w1)
    then show ?thesis using assms(2)[of e] c1 by (auto simp: stays_quiet_def)
  qed
qed

lemma stays_quiet_invoke: "\<not> load_photo_page_or_save (WriterError c) \<Longrightarrow> stays_quiet (invoke env c)"
  by (simp add: stays_quiet_def invoke_def quiet_def)

lemma quiet_on_return_invoke: "quiet_on_return (invoke env c)"
  by (simp add: quiet_on_return_def invoke_def quiet_def)

lemma quiet_on_return_pdf_save: "quiet_on_return (pdf_save env n)"
  by (simp add: quiet_on_return_def pdf_save_def quiet_def)

lemma stays_quiet_encodeText: "stays_quiet (encodeText env t)"
  by (simp add: stays_quiet_def encodeText_def quiet_def split: option.splits)

lemma stays_quiet_addTextAsImage: "stays_quiet (addTextAsImage env t x y fs)"
  by (simp add: stays_quiet_def addTextAsImage_def quiet_def)

lemma quiet_run_task: "quiet w \<Longrightarrow> quiet (run_task env t w)"
  by (cases t) (simp add: onload_def invoke_def quiet_def Let_def)

lemma quiet_fold_run_task: "quiet w \<Longrightarrow> quiet (fold (run_task env) ts w)"
  by (induction ts arbitrary: w) (simp_all add: quiet_run_task)

lemma quiet_run_pending: "quiet w \<Longrightarrow> quiet (run_pending env w)"
  unfolding run_pending_def by (rule quiet_fold_run_task) (simp add: quiet_def)

lemma quiet_on_return_loadImage: "quiet_on_return (loadImage env u)"
  by (auto simp: quiet_on_return_def loadImage_def Let_def quiet_run_pending split: option.splits)

lemma stays_quiet_awaited: "stays_quiet (addTextAsImage_awaited env t x y fs)"
  unfolding addTextAsImage_awaited_def
  by (intro stays_quiet_andThen stays_quiet_addTextAsImage)
     (simp add: stays_quiet_def quiet_run_pending)

lemma stays_quiet_addKoreanText: "stays_quiet (addKoreanText env t x y fs)"
  unfolding addKoreanText_def
  by (intro stays_quiet_catch stays_quiet_andThen stays_quiet_invoke
        stays_quiet_encodeText stays_quiet_addTextAsImage) simp_all

lemma stays_quiet_caption:
  "stays_quiet (catch (addKoreanText env t x y fs) (\<lambda>_. addTextAsImage_awaited env t x y fs'))"
  by (intro stays_quiet_catch stays_quiet_addKoreanText stays_quiet_awaited)

lemma quiet_on_return_branch_one: "quiet_on_return (branch_one env data)"
  unfolding branch_one_def Let_def
  by (intro quiet_on_return_andThen quiet_on_return_loadImage quiet_on_return_invoke
        stays_quiet_on_return[OF stays_quiet_caption])

lemma quiet_on_return_branch_two: "quiet_on_return (branch_two env data)"
  unfolding branch_two_def Let_def
  by (intro quiet_on_return_andThen quiet_on_return_loadImage quiet_on_return_invoke
        stays_quiet_on_return[OF stays_quiet_caption])

lemma quiet_on_return_branch_three: "quiet_on_return (branch_three env data)"
  unfolding branch_three_def Let_def
  by (intro quiet_on_return_andThen quiet_on_return_loadImage quiet_on_return_invoke
        stays_quiet_on_return[OF stays_quiet_caption])

lemma quiet_on_return_skip: "quiet_on_return skip"
  by (simp add: quiet_on_return_def skip_def)

lemma quiet_on_return_try_block: "quiet_on_return (try_block env data)"
  unfolding try_block_def Let_def
  by (intro quiet_on_return_andThen quiet_on_return_pdf_save)
     (simp add: quiet_on_return_branch_one quiet_on_return_branch_two quiet_on_return_branch_three
        quiet_on_return_skip)

text \<open>
  C5 as stated fails: not every step that throws aborts the generation. When \<^verbatim>\<open>pdf.text\<close>
  throws, the \<^verbatim>\<open>catch\<close> of \<^verbatim>\<open>addKoreanText\<close> (lines 55-59) takes the exception and starts the
  canvas fallback; \<open>generatePDF\<close> goes on, places the photo, saves the document and
  resolves.
\<close>

theorem caption_failure_still_delivers:
  "thrown (snd (generatePDF
       ((cooperative (\<lambda>u. Some \<lparr>img_src = u, img_width = 400, img_height = 300\<rparr>))
          \<lparr>throws := (\<lambda>cs c. case c of Text t x y \<Rightarrow> True | _ \<Rightarrow> False)\<rparr>)
       \<lparr>studentId = ''2024001'', studentName = ''Kim'',
        images = [\<lparr>file_name = ''a.jpg'', url = ''blob:a''\<rparr>]\<rparr>))
     = [WriterError (Text ''2024001 Kim'' 105 35)]
   \<and> fst (generatePDF
       ((cooperative (\<lambda>u. Some \<lparr>img_src = u, img_width = 400, img_height = 300\<rparr>))
          \<lparr>throws := (\<lambda>cs c. case c of Text t x y \<Rightarrow> True | _ \<Rightarrow> False)\<rparr>)
       \<lparr>studentId = ''2024001'', studentName = ''Kim'',
        images = [\<lparr>file_name = ''a.jpg'', url = ''blob:a''\<rparr>]\<rparr>) = Inr ()
   \<and> saved (snd (generatePDF
       ((cooperative (\<lambda>u. Some \<lparr>img_src = u, img_width = 400, img_height = 300\<rparr>))
          \<lparr>throws := (\<lambda>cs c. case c of Text t x y \<Rightarrow> True | _ \<Rightarrow> False)\<rparr>)
       \<lparr>studentId = ''2024001'', studentName = ''Kim'',
        images = [\<lparr>file_name = ''a.jpg'', url = ''blob:a''\<rparr>]\<rparr>))
     = Some (''2024001_Kim.pdf'',
         [SetFont ''helvetica'' ''bold'', SetFontSize 28,
          AddImage (Img \<lparr>img_src = ''blob:a'', img_width = 400, img_height = 300\<rparr>) ''JPEG''
            (Some (37, 60, 136, 102))])"
  by (simp add: eval_defs)

text \<open>
  C5, amended: if loading an image, placing a photo (\<^verbatim>\<open>pdf.addImage\<close> of a loaded image),
  \<^verbatim>\<open>pdf.addPage\<close> or \<^verbatim>\<open>pdf.save\<close> throws during \<open>generatePDF\<close>, the whole generation aborts:
  \<open>generatePDF\<close> rejects with exactly the one generic error carrying the localized
  message, and no document is delivered, then or later.
\<close>

theorem generatePDF_failure_single_error:
  assumes step: "e \<in> set (thrown (snd (generatePDF env data)))"
    and kind: "load_photo_page_or_save e"
  shows "fst (generatePDF env data) = Inl (GenerationError generation_error_message)
       \<and> saved (snd (generatePDF env data)) = None
       \<and> saved (run_pending env (snd (generatePDF env data))) = None"
proof -
  have imp: "import_ok env"
  proof (rule ccontr)
    assume "\<not> import_ok env"
    then have "thrown (snd (generatePDF env data)) = []"
      by (simp add: generatePDF_def new_jsPDF_def)
    then show False using step by simp
  qed
  obtain r w where tb: "try_block env data new_jsPDF = (r, w)"
    by (cases "try_block env data new_jsPDF")
  have w: "snd (generatePDF env data) = w"
    using imp tb by (cases r) (simp_all add: generatePDF_def)
  have "\<not> quiet w"
    using step kind w by (auto simp: quiet_def filter_empty_conv)
  moreover have "quiet new_jsPDF" by (simp add: quiet_def new_jsPDF_def)
  ultimately have "\<forall>a. r \<noteq> Inr a"
    using quiet_on_return_try_block[of env data] tb
    by (auto simp: quiet_on_return_def dest!: spec[of _ new_jsPDF])
  then obtain e' where "r = Inl e'" by (cases r) auto
  then have "fst (try_block env data new_jsPDF) = Inl e'" using tb by simp
  with imp show ?thesis by (rule try_block_failure_single_error)
qed

theorem generatePDF_failure_single_error_witness:
  "LoadError ''blob:a'' \<in> set (thrown (snd (generatePDF (cooperative (\<lambda>u. None))
        \<lparr>studentId = ''1'', studentName = ''a'',
         images = [\<lparr>file_name = ''a.jpg'', url = ''blob:a''\<rparr>]\<rparr>)))
   \<and> load_photo_page_or_save (LoadError ''blob:a'')
   \<and> fst (generatePDF (cooperative (\<lambda>u. None))
        \<lparr>studentId = ''1'', studentName = ''a'',
         images = [\<lparr>file_name = ''a.jpg'', url = ''blob:a''\<rparr>]\<rparr>)
       = Inl (GenerationError generation_error_message)
   \<and> saved (snd (generatePDF (cooperative (\<lambda>u. None))
        \<lparr>studentId = ''1'', studentName = ''a'',
         images = [\<lparr>file_name = ''a.jpg'', url = ''blob:a''\<rparr>]\<rparr>))
       = None"
  using generatePDF_failure_single_error
          [of "LoadError ''blob:a''" "cooperative (\<lambda>u. None)"
              "\<lparr>studentId = ''1'', studentName = ''a'',
                images = [\<lparr>file_name = ''a.jpg'', url = ''blob:a''\<rparr>]\<rparr>"]
  by (simp add: generatePDF_def try_block_def branch_one_def andThen_def loadImage_def
        cooperative_def new_jsPDF_def run_pending_def)

text \<open>
  Conversely, \<open>generatePDF\<close> rejects with the generic error only after one of these
  steps has thrown: what reaches the outer \<^verbatim>\<open>catch\<close> is never an exception of the caption.
\<close>

lemma throws_logged_andThen:
  assumes "throws_logged P m" "\<And>a. throws_logged P (f a)"
  shows "throws_logged P (andThen m f)"
  unfolding throws_logged_def
proof (intro allI impI)
  fix w e
  assume r: "fst (andThen m f w) = Inl e"
  show "P e \<and> e \<in> set (thrown (snd (andThen m f w)))"
  proof (cases rule: andThen_cases[of m w f])
    case (thrown e' w1)
    then show ?thesis using assms(1) r by (auto simp: throws_logged_def dest!: spec[of _ w])
  next
    case (returned a w1)
    then show ?thesis using assms(2)[of a] r by (auto simp: throws_logged_def)
  qed
qed

lemma throws_logged_invoke: "P (WriterError c) \<Longrightarrow> throws_logged P (invoke env c)"
  by (simp add: throws_logged_def invoke_def)

lemma throws_logged_pdf_save: "throws_logged load_photo_page_or_save (pdf_save env n)"
  by (simp add: throws_logged_def pdf_save_def)

lemma throws_logged_loadImage: "throws_logged load_photo_page_or_save (loadImage env u)"
  by (auto simp: throws_logged_def loadImage_def Let_def split: option.splits)

lemma throws_logged_caption:
  "throws_logged P (catch (addKoreanText env t x y fs) h)"
  by (simp add: call_site_catch_unreachable throws_logged_def addKoreanText_never_throws)

lemma throws_logged_skip: "throws_logged P skip"
  by (simp add: throws_logged_def skip_def)

lemma throws_logged_branch_one: "throws_logged load_photo_page_or_save (branch_one env data)"
  unfolding branch_one_def Let_def
  by (intro throws_logged_andThen throws_logged_loadImage throws_logged_invoke throws_logged_caption)
     simp_all

lemma throws_logged_branch_two: "throws_logged load_photo_page_or_save (branch_two env data)"
  unfolding branch_two_def Let_def
  by (intro throws_logged_andThen throws_logged_loadImage throws_logged_invoke throws_logged_caption)
     simp_all

lemma throws_logged_branch_three: "throws_logged load_photo_page_or_save (branch_three env data)"
  unfolding branch_three_def Let_def
  by (intro throws_logged_andThen throws_logged_loadImage throws_logged_invoke throws_logged_caption)
     simp_all

lemma throws_logged_try_block: "throws_logged load_photo_page_or_save (try_block env data)"
  unfolding try_block_def Let_def
  by (intro throws_logged_andThen throws_logged_pdf_save)
     (simp add: throws_logged_branch_one throws_logged_branch_two throws_logged_branch_three
        throws_logged_skip)

lemma generatePDF_rejects_only_after_abort:
  assumes "fst (generatePDF env data) = Inl (GenerationError m)"
  shows "\<exists>e \<in> set (thrown (snd (generatePDF env data))). load_photo_page_or_save e"
proof -
  have imp: "import_ok env" using assms by (auto simp: generatePDF_def split: if_splits)
  obtain r w where tb: "try_block env data new_jsPDF = (r, w)"
    by (cases "try_block env data new_jsPDF")
  have w: "snd (generatePDF env data) = w"
    using imp tb by (cases r) (simp_all add: generatePDF_def)
  obtain e where "r = Inl e" using assms imp tb by (cases r) (simp_all add: generatePDF_def)
  then have "load_photo_page_or_save e \<and> e \<in> set (thrown w)"
    using throws_logged_try_block[of env data] tb
    by (auto simp: throws_logged_def dest!: spec[of _ new_jsPDF])
  then show ?thesis using w by auto
qed

section \<open>No image, or more than three\<close>

text \<open>
  C3 as stated ("a silent no-op: it produces no page") fails: with no image at all, and
  nothing failing, \<open>generatePDF\<close> still calls \<^verbatim>\<open>pdf.save\<close> and delivers a document, the
  one blank page the writer starts with.
\<close>

theorem no_image_saves_blank_document:
  "generatePDF (cooperative (\<lambda>u. None))
       \<lparr>studentId = ''2024001'', studentName = ''Kim'', images = []\<rparr>
     = (Inr (), \<lparr>calls = [Save ''2024001_Kim.pdf''], pending = [],
                  saved = Some (''2024001_Kim.pdf'', []), thrown = []\<rparr>)
   \<and> snd (generatePDF (cooperative (\<lambda>u. None))
       \<lparr>studentId = ''2024001'', studentName = ''Kim'', images = []\<rparr>) \<noteq> new_jsPDF
   \<and> page_count [] = 1"
  by (simp add: eval_defs)

text \<open>
  C3, amended: for an input with 0 images or more than 3 images, \<open>generatePDF\<close> adds
  no page and places no text or image; it is not a no-op, since it
  still calls \<^verbatim>\<open>pdf.save\<close> once and so delivers the writer's initial blank document as
  \<^verbatim>\<open>{studentId}_{studentName}.pdf\<close>; it raises no error when the import and that save
  succeed.
\<close>

theorem out_of_range_count_saves_only:
  assumes "length (images data) = 0 \<or> 3 < length (images data)"
    and "import_ok env"
    and "\<not> throws env [] (Save (studentId data @ ''_'' @ studentName data @ ''.pdf''))"
  shows "generatePDF env data =
           (Inr (), \<lparr>calls = [Save (studentId data @ ''_'' @ studentName data @ ''.pdf'')],
                      pending = [],
                      saved = Some (studentId data @ ''_'' @ studentName data @ ''.pdf'', []),
                      thrown = []\<rparr>)
       \<and> execution env data = [Save (studentId data @ ''_'' @ studentName data @ ''.pdf'')]"
  using assms
  by (auto simp: generatePDF_def try_block_def andThen_def skip_def pdf_save_def new_jsPDF_def
      execution_def run_pending_def Let_def)

theorem out_of_range_count_saves_only_witness:
  "(length (images \<lparr>studentId = ''7'', studentName = ''Lee'',
        images = replicate 4 \<lparr>file_name = ''p.jpg'', url = ''blob:p''\<rparr>\<rparr>) = 0
     \<or> 3 < length (images \<lparr>studentId = ''7'', studentName = ''Lee'',
        images = replicate 4 \<lparr>file_name = ''p.jpg'', url = ''blob:p''\<rparr>\<rparr>))
   \<and> import_ok (cooperative (\<lambda>u. None))
   \<and> \<not> throws (cooperative (\<lambda>u. None)) [] (Save ''7_Lee.pdf'')
   \<and> generatePDF (cooperative (\<lambda>u. None)) \<lparr>studentId = ''7'', studentName = ''Lee'',
        images = replicate 4 \<lparr>file_name = ''p.jpg'', url = ''blob:p''\<rparr>\<rparr>
       = (Inr (), \<lparr>calls = [Save ''7_Lee.pdf''], pending = [],
                    saved = Some (''7_Lee.pdf'', []), thrown = []\<rparr>)"
  using out_of_range_count_saves_only
      [of "\<lparr>studentId = ''7'', studentName = ''Lee'',
            images = replicate 4 \<lparr>file_name = ''p.jpg'', url = ''blob:p''\<rparr>\<rparr>"
          "cooperative (\<lambda>u. None)"]
  by (simp add: cooperative_def)

section \<open>Two images side by side\<close>











section \<open>Caption before photos\<close>

text \<open>
  When the direct text placement goes through, the caption step is the three writer
  calls of \<open>addKoreanText\<close>, and every run places each page's caption before its photos.
\<close>

lemma caption_direct:
  assumes "\<And>t. encode env t \<noteq> None"
    and "\<And>cs a b. \<not> throws env cs (SetFont a b)"
    and "\<And>cs s. \<not> throws env cs (SetFontSize s)"
    and "\<And>cs t x y. \<not> throws env cs (Text t x y)"
  shows "catch (addKoreanText env t x y fs) h w =
     (Inr (), w\<lparr>calls := calls w @
        [SetFont ''helvetica'' ''bold'', SetFontSize fs, Text (the (encode env t)) x y]\<rparr>)"
  using assms(1)[of t] assms(2-4)
  by (auto simp: addKoreanText_def catch_def andThen_def invoke_def encodeText_def)

lemma direct_text_caption_first:
  assumes enc: "\<And>t. encode env t \<noteq> None"
    and nt: "\<And>cs a b. \<not> throws env cs (SetFont a b)"
      "\<And>cs s. \<not> throws env cs (SetFontSize s)"
      "\<And>cs t x y. \<not> throws env cs (Text t x y)"
  shows "caption_first False (execution env data)"
proof -
  note cap = caption_direct[OF enc nt]
  show ?thesis
    by (simp add: execution_def generatePDF_def try_block_def branch_one_def branch_two_def
        branch_three_def cap andThen_def skip_def invoke_def pdf_save_def loadImage_def
        run_pending_def new_jsPDF_def Let_def
      split: option.splits)
qed

text \<open>
  C9 (in every run with 1 to 3 images the caption is placed before any image of the
  same page, and the pages come in order) does not hold of the code when the direct
  text placement throws. Here the encoding of the caption throws, with one image:
  \<open>addKoreanText\<close> starts the canvas fallback and returns without waiting for it, the
  photo is placed and the document saved, and only then does the handler place the
  rasterised caption.
\<close>

theorem fallback_caption_after_photo:
  "execution ((cooperative (\<lambda>u. Some \<lparr>img_src = u, img_width = 400, img_height = 300\<rparr>))
                 \<lparr>encode := (\<lambda>t. None)\<rparr>)
       \<lparr>studentId = ''2024001'', studentName = ''Kim'',
        images = [\<lparr>file_name = ''a.jpg'', url = ''blob:a''\<rparr>]\<rparr>
     = [SetFont ''helvetica'' ''bold'', SetFontSize 28,
        AddImage (Img \<lparr>img_src = ''blob:a'', img_width = 400, img_height = 300\<rparr>) ''JPEG''
          (Some (37, 60, 136, 102)),
        Save ''2024001_Kim.pdf'',
        AddImage (DataURL \<lparr>cv_width = 2000, cv_height = 200, cv_font_px = 84,
                            cv_text = ''2024001 Kim''\<rparr>) ''PNG'' (Some (45, 29, 120, 12))]
   \<and> \<not> caption_first False
        (execution ((cooperative (\<lambda>u. Some \<lparr>img_src = u, img_width = 400, img_height = 300\<rparr>))
                 \<lparr>encode := (\<lambda>t. None)\<rparr>)
           \<lparr>studentId = ''2024001'', studentName = ''Kim'',
            images = [\<lparr>file_name = ''a.jpg'', url = ''blob:a''\<rparr>]\<rparr>)"
  by (simp add: eval_defs)

text \<open>
  With three images the handler of the first caption can get its event while the
  generator waits for the third image: the caption of page 1 is then placed after
  \<^verbatim>\<open>addPage\<close>, on page 2, and the caption of page 2 after the save.
\<close>

lemma fallback_caption_on_next_page:
  "execution ((cooperative (\<lambda>u. Some \<lparr>img_src = u, img_width = 400, img_height = 300\<rparr>))
                 \<lparr>encode := (\<lambda>t. None), fires_during := (\<lambda>u. True)\<rparr>)
       \<lparr>studentId = ''2024001'', studentName = ''Kim'',
        images = [\<lparr>file_name = ''a.jpg'', url = ''blob:a''\<rparr>,
                  \<lparr>file_name = ''b.jpg'', url = ''blob:b''\<rparr>,
                  \<lparr>file_name = ''c.jpg'', url = ''blob:c''\<rparr>]\<rparr>
     = [SetFont ''helvetica'' ''bold'', SetFontSize 28,
        AddImage (Img \<lparr>img_src = ''blob:a'', img_width = 400, img_height = 300\<rparr>) ''JPEG''
          (Some (23.875, 142.34375, 69.75, 52.3125)),
        AddImage (Img \<lparr>img_src = ''blob:b'', img_width = 400, img_height = 300\<rparr>) ''JPEG''
          (Some (116.375, 142.34375, 69.75, 52.3125)),
        AddPage,
        AddImage (DataURL \<lparr>cv_width = 2000, cv_height = 200, cv_font_px = 84,
                            cv_text = ''2024001 Kim''\<rparr>) ''PNG'' (Some (45, 29, 120, 12)),
        SetFont ''helvetica'' ''bold'', SetFontSize 28,
        AddImage (Img \<lparr>img_src = ''blob:c'', img_width = 400, img_height = 300\<rparr>) ''JPEG''
          (Some (37, 60, 136, 102)),
        Save ''2024001_Kim.pdf'',
        AddImage (DataURL \<lparr>cv_width = 2000, cv_height = 200, cv_font_px = 84,
                            cv_text = ''2024001 Kim''\<rparr>) ''PNG'' (Some (45, 29, 120, 12))]"
  by (simp add: eval_defs)

end
